theory Spec2Isabelle
  imports Complex_Main
begin

section \<open>Sticky navigation controller (src/utils/sticky-nav.ts)\<close>

subsection \<open>Static tables\<close>

text \<open>
  \<^verbatim>\<open>sectionMap\<close> is an object literal with six own properties, \<^verbatim>\<open>sectionOrder\<close> an
  array of five of its keys (the key \<^verbatim>\<open>process\<close> is mapped but not ordered).
\<close>

definition sectionMap :: "string \<rightharpoonup> string" where
  "sectionMap = map_of
     [(''overview'', ''overview-section''),
      (''floor-plans'', ''floor-plans-section''),
      (''amentities'', ''amentities-section''),
      (''personalisation'', ''personalization-section''),
      (''browse-homes'', ''lots-section''),
      (''process'', ''process-section'')]"

definition sectionOrder :: "string list" where
  "sectionOrder =
     [''overview'', ''floor-plans'', ''amentities'', ''personalisation'', ''browse-homes'']"

text \<open>
  \<^verbatim>\<open>this.sectionOrder.find((key) => this.sectionMap[key] === sectionId) ?? null\<close>:
  the first ordered key whose table entry is the given section id; \<open>None\<close> is \<^verbatim>\<open>null\<close>.
\<close>

definition getDevTargetBySectionId :: "string \<Rightarrow> string option" where
  "getDevTargetBySectionId sectionId =
     find (\<lambda>key. sectionMap key = Some sectionId) sectionOrder"

subsection \<open>The page as the controller reads it\<close>

text \<open>
  The scrollable strip a link sits in (\<^verbatim>\<open>link.closest('[dev-target="tab-left"]')\<close>) with
  the two integer layout properties the controller reads from it.
\<close>

record strip =
  strip_id :: nat
  strip_offsetWidth :: int
  strip_scrollWidth :: int

text \<open>
  A nav link element: its \<^verbatim>\<open>dev-target\<close> attribute (\<open>None\<close> when \<^verbatim>\<open>getAttribute\<close>
  returns \<^verbatim>\<open>null\<close>), whether its class list holds \<^verbatim>\<open>is-active\<close>, its integer layout
  properties, the \<^verbatim>\<open>offsetHeight\<close> of its closest \<^verbatim>\<open>.tab-header\<close> ancestor and its
  closest strip, each \<open>None\<close> when \<^verbatim>\<open>closest\<close> returns \<^verbatim>\<open>null\<close>.
\<close>

record link =
  devTarget :: "string option"
  isActive :: bool
  offsetLeft :: int
  offsetWidth :: int
  tabHeader :: "int option"
  closestStrip :: "strip option"

text \<open>
  What a handler reads from the window and the document when it runs:
  \<^verbatim>\<open>window.innerWidth\<close>, \<^verbatim>\<open>window.scrollY\<close>, for every element id present in the document
  the \<^verbatim>\<open>getBoundingClientRect().top\<close> of that element (\<open>None\<close>: \<^verbatim>\<open>getElementById\<close>
  returns \<^verbatim>\<open>null\<close>), and the truthy members that a property read on an object literal
  inherits through its prototype chain, each given by the string it converts to.
  Numbers are JavaScript numbers; the model computes with them as reals.
\<close>

record page =
  innerWidth :: int
  scrollY :: real
  elementTop :: "string \<rightharpoonup> real"
  objectPrototype :: "string \<rightharpoonup> string"

text \<open>The calls the controller issues and that change what the visitor sees.\<close>

datatype call =
  WindowScrollTo real
  | StripScrollTo nat real

text \<open>One \<^verbatim>\<open>IntersectionObserverEntry\<close>: \<^verbatim>\<open>entry.target.id\<close> and \<^verbatim>\<open>entry.isIntersecting\<close>.\<close>

record entry =
  target_id :: string
  isIntersecting :: bool

text \<open>
  The controller's fields, the link elements it holds (their classes are the active
  flags), the pending animation-frame callback of \<^verbatim>\<open>init\<close>, and the trace of scroll
  calls and \<^verbatim>\<open>console.error\<close> messages. \<open>observer\<close> is \<open>None\<close> for \<^verbatim>\<open>null\<close>, otherwise
  the ids of the observed sections.
\<close>

record nav =
  links :: "link list"
  observer :: "string list option"
  visibleSections :: "string set"
  frameQueued :: bool
  calls :: "call list"
  console :: "string list"

definition nav0 :: nav where
  "nav0 = \<lparr>links = [], observer = None, visibleSections = {}, frameQueued = False,
           calls = [], console = []\<rparr>"

subsection \<open>Operations\<close>

text \<open>
  \<^verbatim>\<open>scrollLinkIntoStrip\<close>: nothing above 767px or without a strip; otherwise one
  \<^verbatim>\<open>strip.scrollTo\<close> with \<^verbatim>\<open>left: Math.min(Math.max(0, targetScrollLeft), maxScroll)\<close>.
\<close>

definition targetScrollLeft :: "link \<Rightarrow> strip \<Rightarrow> real" where
  "targetScrollLeft l st =
     real_of_int (offsetLeft l) + real_of_int (offsetWidth l) / 2
       - real_of_int (strip_offsetWidth st) / 2"

definition maxScroll :: "strip \<Rightarrow> real" where
  "maxScroll st = real_of_int (strip_scrollWidth st - strip_offsetWidth st)"

definition scrollLinkIntoStrip :: "page \<Rightarrow> link \<Rightarrow> call list" where
  "scrollLinkIntoStrip p l =
     (if innerWidth p > 767 then []
      else case closestStrip l of
        None \<Rightarrow> []
      | Some st \<Rightarrow>
          [StripScrollTo (strip_id st) (min (max 0 (targetScrollLeft l st)) (maxScroll st))])"

text \<open>
  \<^verbatim>\<open>setActiveLink\<close>: every link's class is toggled to whether its \<^verbatim>\<open>dev-target\<close> equals
  the name, and each matching link is scrolled into its strip, in link order.
\<close>

definition setActiveLink :: "string \<Rightarrow> page \<Rightarrow> nav \<Rightarrow> nav" where
  "setActiveLink targetName p s =
     s\<lparr>links := map (\<lambda>l. l\<lparr>isActive := (devTarget l = Some targetName)\<rparr>) (links s),
       calls := calls s @
         concat (map (\<lambda>l. if devTarget l = Some targetName
                           then scrollLinkIntoStrip p l else []) (links s))\<rparr>"

text \<open>
  \<^verbatim>\<open>this.sectionMap[target]\<close> reads an own property first and an inherited one
  otherwise; \<open>None\<close> is a falsy result (\<^verbatim>\<open>undefined\<close>).
\<close>

definition sectionMap_get :: "page \<Rightarrow> string \<Rightarrow> string option" where
  "sectionMap_get p target =
     (case sectionMap target of
        Some sectionId \<Rightarrow> Some sectionId
      | None \<Rightarrow> objectPrototype p target)"

text \<open>
  The click listener of the link at position \<open>i\<close>. Each early \<^verbatim>\<open>return\<close> of the source is a
  branch that gives the state back; only a missing section logs.
\<close>

definition clickHandler :: "nat \<Rightarrow> page \<Rightarrow> nav \<Rightarrow> nav" where
  "clickHandler i p s =
     (if i \<ge> length (links s) then s
      else let l = links s ! i in
        case devTarget l of
          None \<Rightarrow> s
        | Some target \<Rightarrow>
            if target = [] then s
            else case sectionMap_get p target of
              None \<Rightarrow> s
            | Some sectionId \<Rightarrow>
                (case elementTop p sectionId of
                   None \<Rightarrow>
                     s\<lparr>console := console s @
                        [''StickyNavController: Section #'' @ sectionId @ '' not found.'']\<rparr>
                 | Some rectTop \<Rightarrow>
                     let navHeight = (case tabHeader l of None \<Rightarrow> 0 | Some h \<Rightarrow> real_of_int h);
                         sectionTop = rectTop + scrollY p - navHeight
                     in setActiveLink target p
                          (s\<lparr>calls := calls s @ [WindowScrollTo sectionTop]\<rparr>)))"

text \<open>The observer callback: every entry is applied, then the active target is chosen.\<close>

definition applyEntry :: "string set \<Rightarrow> entry \<Rightarrow> string set" where
  "applyEntry vis e =
     (case getDevTargetBySectionId (target_id e) of
        None \<Rightarrow> vis
      | Some t \<Rightarrow> if isIntersecting e then insert t vis else vis - {t})"

definition activeTarget :: "string set \<Rightarrow> string option" where
  "activeTarget vis = find (\<lambda>t. t \<in> vis) sectionOrder"

definition observerCallback :: "entry list \<Rightarrow> page \<Rightarrow> nav \<Rightarrow> nav" where
  "observerCallback entries p s =
     (let s' = s\<lparr>visibleSections := foldl applyEntry (visibleSections s) entries\<rparr>
      in case activeTarget (visibleSections s') of
           None \<Rightarrow> s'
         | Some t \<Rightarrow> setActiveLink t p s')"

text \<open>
  \<^verbatim>\<open>setupScrollObserver\<close>: the observer is created and every ordered section found in
  the document is observed; a missing one is logged.
\<close>

definition observeSection :: "page \<Rightarrow> nav \<Rightarrow> string \<Rightarrow> nav" where
  "observeSection p s target =
     (case sectionMap target of
        None \<Rightarrow> s
      | Some sectionId \<Rightarrow>
          (case elementTop p sectionId of
             Some _ \<Rightarrow> s\<lparr>observer := map_option (\<lambda>ids. ids @ [sectionId]) (observer s)\<rparr>
           | None \<Rightarrow>
               s\<lparr>console := console s @
                  [''StickyNavController: Section #'' @ sectionId @ '' not found in DOM.'']\<rparr>))"

definition setupScrollObserver :: "page \<Rightarrow> nav \<Rightarrow> nav" where
  "setupScrollObserver p s = foldl (observeSection p) (s\<lparr>observer := Some []\<rparr>) sectionOrder"

text \<open>
  \<^verbatim>\<open>init\<close>, given the elements that \<^verbatim>\<open>querySelectorAll('.tab-links[dev-target]')\<close> found.
  The click listeners need no field of their own: the link at position \<open>i\<close> has one exactly
  when \<open>i < length (links s)\<close>. The animation-frame callback is queued, not run.
\<close>

definition init :: "link list \<Rightarrow> page \<Rightarrow> nav \<Rightarrow> nav" where
  "init found p s =
     (if found = []
      then s\<lparr>links := [], console := console s @ [''StickyNavController: No tab links found.'']\<rparr>
      else (setupScrollObserver p (s\<lparr>links := found\<rparr>))\<lparr>frameQueued := True\<rparr>)"

text \<open>
  The queued callback: the first link already marked active, else the first link, gets
  the class (a no-op on the former) and is scrolled into its strip.
\<close>

definition initFrame :: "page \<Rightarrow> nav \<Rightarrow> nav" where
  "initFrame p s =
     (case find isActive (links s) of
        Some l \<Rightarrow> s\<lparr>calls := calls s @ scrollLinkIntoStrip p l\<rparr>
      | None \<Rightarrow>
          (case links s of
             [] \<Rightarrow> s
           | l # ls \<Rightarrow>
               s\<lparr>links := l\<lparr>isActive := True\<rparr> # ls,
                 calls := calls s @ scrollLinkIntoStrip p l\<rparr>))"

definition destroy :: "nav \<Rightarrow> nav" where
  "destroy s = s\<lparr>observer := None, visibleSections := {}\<rparr>"

subsection \<open>Runs of the controller\<close>

text \<open>
  After \<^verbatim>\<open>init\<close> the browser dispatches events one at a time, each handler running to
  completion: the animation frame (once), a click on the link at some position, an
  observer batch (only while the observer is connected), and \<^verbatim>\<open>destroy\<close>.
\<close>

datatype event =
  Frame page
  | Click nat page
  | Batch "entry list" page
  | Destroy

fun step :: "nav \<Rightarrow> event \<Rightarrow> nav" where
  "step s (Frame p) = (if frameQueued s then initFrame p (s\<lparr>frameQueued := False\<rparr>) else s)"
| "step s (Click i p) = clickHandler i p s"
| "step s (Batch entries p) = (if observer s = None then s else observerCallback entries p s)"
| "step s Destroy = destroy s"

definition run :: "link list \<Rightarrow> page \<Rightarrow> event list \<Rightarrow> nav" where
  "run found p evs = foldl step (init found p nav0) evs"

subsection \<open>Predicates used to state the properties\<close>

text \<open>
  A batch is free of conflicts when it does not report one section id with two
  different intersection states.
\<close>

definition conflictFree :: "entry list \<Rightarrow> bool" where
  "conflictFree es \<longleftrightarrow>
     (\<forall>e1\<in>set es. \<forall>e2\<in>set es. target_id e1 = target_id e2 \<longrightarrow> isIntersecting e1 = isIntersecting e2)"

text \<open>An entry written as a pair of its section id and its state.\<close>

definition entry_of :: "string \<Rightarrow> bool \<Rightarrow> entry" where
  "entry_of sid b = \<lparr>target_id = sid, isIntersecting = b\<rparr>"

text \<open>
  The invariant kept by every handler: the links carry pairwise different
  \<^verbatim>\<open>dev-target\<close> values and at most one of them is active.
\<close>

definition navInv :: "nav \<Rightarrow> bool" where
  "navInv s \<longleftrightarrow> distinct (map devTarget (links s)) \<and> length (filter isActive (links s)) \<le> 1"

subsection \<open>The bundled build\<close>

text \<open>
  The bundled build of the controller has the same function without the clamp:
  \<^verbatim>\<open>strip.scrollTo({ left: targetScrollLeft, behavior: "smooth" })\<close>.
\<close>

definition scrollLinkIntoStrip_bundle :: "page \<Rightarrow> link \<Rightarrow> call list" where
  "scrollLinkIntoStrip_bundle p l =
     (if innerWidth p > 767 then []
      else case closestStrip l of
        None \<Rightarrow> []
      | Some st \<Rightarrow>
          [StripScrollTo (strip_id st)
             (real_of_int (offsetLeft l) - real_of_int (strip_offsetWidth st) / 2
                + real_of_int (offsetWidth l) / 2)])"

section \<open>Gallery controller (src/utils/gallery.ts)\<close>

text \<open>The \<^verbatim>\<open>GalleryConfig\<close> interface and the two configured galleries.\<close>

record GalleryConfig =
  trigger :: string
  imageAttr :: string
  containerClass :: string

definition GALLERY_CONFIGS :: "GalleryConfig list" where
  "GALLERY_CONFIGS =
     [\<lparr>trigger = ''image-gallery'', imageAttr = ''hidden-main-gallery-images'',
       containerClass = ''.hidden-main-gallery-collection''\<rparr>,
      \<lparr>trigger = ''community-gallery'', imageAttr = ''hidden-community-gallery-images'',
       containerClass = ''.hidden-community-gallery-collection''\<rparr>]"

text \<open>
  An element of the document: its identity, tag name, class list, attributes and
  children in document order.
\<close>

datatype node = Node (nid: nat) (tag: string) (classes: "string list")
  (attrs: "(string \<times> string) list") (children: "node list")

text \<open>
  The elements of a subtree in document order, and the three selector queries the
  controller makes: \<^verbatim>\<open>img[dev-target="..."]\<close>, a class selector (first match), and
  \<^verbatim>\<open>[dev-target="..."]\<close>.
\<close>

fun elements :: "node \<Rightarrow> node list" where
  "elements (Node i t c a ks) = Node i t c a ks # concat (map elements ks)"

definition getAttribute :: "node \<Rightarrow> string \<Rightarrow> string option" where
  "getAttribute n name = map_of (attrs n) name"

definition matches_img :: "string \<Rightarrow> node \<Rightarrow> bool" where
  "matches_img attr n \<longleftrightarrow> tag n = ''img'' \<and> getAttribute n ''dev-target'' = Some attr"

definition querySelectorAll_img :: "string \<Rightarrow> node \<Rightarrow> node list" where
  "querySelectorAll_img attr d = filter (matches_img attr) (elements d)"

definition matches_class :: "string \<Rightarrow> node \<Rightarrow> bool" where
  "matches_class sel n \<longleftrightarrow> (case sel of [] \<Rightarrow> False | ch # cls \<Rightarrow> ch = CHR ''.'' \<and> cls \<in> set (classes n))"

definition querySelector_class :: "string \<Rightarrow> node \<Rightarrow> node option" where
  "querySelector_class sel d = find (matches_class sel) (elements d)"

definition querySelectorAll_devTarget :: "string \<Rightarrow> node \<Rightarrow> node list" where
  "querySelectorAll_devTarget v d = filter (\<lambda>n. getAttribute n ''dev-target'' = Some v) (elements d)"

text \<open>
  Child-list mutations of the document: children appended to the element with a given
  identity, and the child with a given identity removed. The target of a mutation is
  the element whose child list changes; \<open>inside\<close> says that an element lies in the subtree
  of a container (the container included), which is where an observer registered with
  \<^verbatim>\<open>{ childList: true, subtree: true }\<close> is notified.
\<close>

fun appendChildren :: "nat \<Rightarrow> node list \<Rightarrow> node \<Rightarrow> node" where
  "appendChildren parent new (Node i t c a ks) =
     (if i = parent then Node i t c a (ks @ new)
      else Node i t c a (map (appendChildren parent new) ks))"

fun removeChild :: "nat \<Rightarrow> node \<Rightarrow> node" where
  "removeChild child (Node i t c a ks) =
     Node i t c a (map (removeChild child) (filter (\<lambda>k. nid k \<noteq> child) ks))"

datatype mutation = AppendChildren nat "node list" | RemoveChild nat

definition mutation_target :: "mutation \<Rightarrow> node \<Rightarrow> nat option" where
  "mutation_target m d =
     (case m of
        AppendChildren parent new \<Rightarrow>
          map_option nid (find (\<lambda>n. nid n = parent) (elements d))
      | RemoveChild child \<Rightarrow>
          map_option nid (find (\<lambda>n. child \<in> nid ` set (children n)) (elements d)))"

definition apply_mutation :: "mutation \<Rightarrow> node \<Rightarrow> node" where
  "apply_mutation m d =
     (case m of AppendChildren parent new \<Rightarrow> appendChildren parent new d
              | RemoveChild child \<Rightarrow> removeChild child d)"

definition inside :: "nat \<Rightarrow> nat \<Rightarrow> node \<Rightarrow> bool" where
  "inside container n d \<longleftrightarrow>
     (case find (\<lambda>e. nid e = container) (elements d) of
        None \<Rightarrow> False
      | Some c \<Rightarrow> n \<in> nid ` set (elements c))"

text \<open>
  The image a slide holds (the properties copied from the cached element), an overlay
  element with its \<^verbatim>\<open>is-open\<close> class, its main and thumbnail slides and the number of
  once-only \<^verbatim>\<open>transitionend\<close> listeners on it, and the controller state: the document,
  the fields of the class, the overlay elements created so far by reference, the overlay
  elements that are children of \<^verbatim>\<open>document.body\<close>, the body's overflow style, the queued
  animation-frame callbacks, the console and the exceptions that left a listener
  uncaught.

  Two things come from outside the repository and are parameters of the model. The
  \<^verbatim>\<open>src\<close> property of an image is its attribute resolved against the document:
  \<open>resolveURL\<close>. Swiper is an external library: \<open>newSwiper\<close> gives what
  \<^verbatim>\<open>new Swiper(selector, options)\<close> does, from the selector, the thumbs slider passed
  in the options and the overlay elements of the document that hold a match of the
  selector. It either throws or returns one slider or an array of sliders (the library
  returns an array when the selector matches more than one element).
\<close>

datatype js_error = TypeError | SwiperError

datatype swiper_result = Instance nat | Instances "nat list"

record browser =
  resolveURL :: "string \<Rightarrow> string"
  newSwiper :: "string \<Rightarrow> swiper_result option \<Rightarrow> nat list \<Rightarrow> js_error + swiper_result"

record slide_img =
  src :: string
  alt :: string
  srcset :: string
  sizes :: string

record overlay_el =
  is_open :: bool
  main_slides :: "slide_img list"
  thumb_slides :: "slide_img list"
  transitionend :: nat

record gallery =
  doc :: node
  caches :: "string \<rightharpoonup> node list"
  observers :: "(nat \<times> GalleryConfig) list"
  bound :: "string list"
  overlay :: "nat option"
  swiper :: "swiper_result option"
  thumbsSwiper :: "swiper_result option"
  heap :: "nat \<rightharpoonup> overlay_el"
  body :: "nat list"
  bodyOverflow :: string
  frames :: nat
  nextRef :: nat
  gallery_console :: "string list"
  uncaught :: "js_error list"
  browser :: browser

definition gallery0 :: "browser \<Rightarrow> node \<Rightarrow> gallery" where
  "gallery0 b d = \<lparr>doc = d, caches = Map.empty, observers = [], bound = [], overlay = None,
                   swiper = None, thumbsSwiper = None, heap = Map.empty, body = [],
                   bodyOverflow = [], frames = 0, nextRef = 0, gallery_console = [],
                   uncaught = [], browser = b\<rparr>"

text \<open>
  \<^verbatim>\<open>observeImages\<close> with its local \<^verbatim>\<open>refresh\<close>, \<^verbatim>\<open>bindTrigger\<close> and \<^verbatim>\<open>init\<close>. An observer is
  kept as the identity of the container it observes with the configuration its callback
  refreshes; \<open>bound\<close> lists the triggers that got a click listener.
\<close>

definition refresh :: "GalleryConfig \<Rightarrow> gallery \<Rightarrow> gallery" where
  "refresh config s =
     s\<lparr>caches := (caches s)(trigger config \<mapsto> querySelectorAll_img (imageAttr config) (doc s))\<rparr>"

definition observeImages :: "GalleryConfig \<Rightarrow> gallery \<Rightarrow> gallery" where
  "observeImages config s =
     (let s' = refresh config s in
      case querySelector_class (containerClass config) (doc s') of
        None \<Rightarrow>
          s'\<lparr>gallery_console := gallery_console s' @
             [''GalleryController: \"'' @ containerClass config @ ''\" not found.'']\<rparr>
      | Some container \<Rightarrow> s'\<lparr>observers := observers s' @ [(nid container, config)]\<rparr>)"

definition bindTrigger :: "GalleryConfig \<Rightarrow> gallery \<Rightarrow> gallery" where
  "bindTrigger config s =
     (if querySelectorAll_devTarget (trigger config) (doc s) = [] then s
      else s\<lparr>bound := bound s @ [trigger config]\<rparr>)"

definition gallery_init :: "gallery \<Rightarrow> gallery" where
  "gallery_init s =
     foldl (\<lambda>s config.
              bindTrigger config (observeImages config (s\<lparr>caches := (caches s)(trigger config \<mapsto> [])\<rparr>)))
       s GALLERY_CONFIGS"

text \<open>
  \<^verbatim>\<open>close\<close>: nothing without an overlay; otherwise the class is removed, page scroll is
  restored and one more once-only \<^verbatim>\<open>transitionend\<close> listener is put on the element the
  field refers to now. Nothing is removed from the document here.
\<close>

definition gallery_close :: "gallery \<Rightarrow> gallery" where
  "gallery_close s =
     (case overlay s of
        None \<Rightarrow> s
      | Some r \<Rightarrow>
          s\<lparr>heap := (case heap s r of
                        None \<Rightarrow> heap s
                      | Some el \<Rightarrow>
                          (heap s)(r \<mapsto> el\<lparr>is_open := False,
                                            transitionend := Suc (transitionend el)\<rparr>)),
            bodyOverflow := []\<rparr>)"

text \<open>
  The listener body, statement by statement. It reads the fields when it runs, not when
  it was registered: \<^verbatim>\<open>this.overlay?.remove()\<close> detaches whatever element the field
  refers to then. An array has no \<^verbatim>\<open>destroy\<close> method, so \<^verbatim>\<open>?.destroy(true, true)\<close> on a
  field that holds an array throws a \<^verbatim>\<open>TypeError\<close> and the statements after it do not
  run; the \<^verbatim>\<open>destroy\<close> of a single slider is taken to return. The result is the state
  reached and the exception thrown, if any.
\<close>

definition onTransitionEnd :: "gallery \<Rightarrow> gallery \<times> js_error option" where
  "onTransitionEnd s =
     (case thumbsSwiper s of
        Some (Instances _) \<Rightarrow> (s, Some TypeError)
      | _ \<Rightarrow>
          (let s1 = s\<lparr>thumbsSwiper := None\<rparr> in
           case swiper s1 of
             Some (Instances _) \<Rightarrow> (s1, Some TypeError)
           | _ \<Rightarrow>
               (s1\<lparr>swiper := None,
                   body := (case overlay s1 of
                              None \<Rightarrow> body s1
                            | Some r \<Rightarrow> removeAll r (body s1)),
                   overlay := None\<rparr>, None)))"

text \<open>
  The once-only listeners of an element run one after the other; an exception thrown by
  one of them is reported and does not stop the next.
\<close>

fun runListeners :: "nat \<Rightarrow> gallery \<Rightarrow> gallery" where
  "runListeners 0 s = s"
| "runListeners (Suc n) s =
     (case onTransitionEnd s of
        (s', None) \<Rightarrow> runListeners n s'
      | (s', Some e) \<Rightarrow> runListeners n (s'\<lparr>uncaught := uncaught s' @ [e]\<rparr>))"

text \<open>
  \<^verbatim>\<open>open\<close>: the current overlay is closed first, then a new overlay element is built
  with one main and one thumbnail slide per image, appended to the body and made the
  current one. Each slide image gets the \<^verbatim>\<open>src\<close> and \<^verbatim>\<open>alt\<close> properties of the cached
  image; an unset \<^verbatim>\<open>srcset\<close> or \<^verbatim>\<open>sizes\<close> reads as the empty string on either side. The
  two sliders are then built with the document-wide selectors \<^verbatim>\<open>.hb-gallery-thumbs\<close>
  and \<^verbatim>\<open>.hb-gallery-swiper\<close>, which every overlay in the body matches; an exception
  of the constructor leaves \<^verbatim>\<open>open\<close> at that point.
\<close>

definition slide_of :: "browser \<Rightarrow> node \<Rightarrow> slide_img" where
  "slide_of b img =
     \<lparr>src = (case getAttribute img ''src'' of None \<Rightarrow> [] | Some v \<Rightarrow> resolveURL b v),
      alt = (case getAttribute img ''alt'' of None \<Rightarrow> [] | Some v \<Rightarrow> v),
      srcset = (case getAttribute img ''srcset'' of None \<Rightarrow> [] | Some v \<Rightarrow> v),
      sizes = (case getAttribute img ''sizes'' of None \<Rightarrow> [] | Some v \<Rightarrow> v)\<rparr>"

definition thumb_of :: "browser \<Rightarrow> node \<Rightarrow> slide_img" where
  "thumb_of b img = (slide_of b img)\<lparr>srcset := [], sizes := []\<rparr>"

definition gallery_open :: "node list \<Rightarrow> nat \<Rightarrow> gallery \<Rightarrow> gallery" where
  "gallery_open imgs startIndex s =
     (let s' = gallery_close s; r = nextRef s';
          s1 = s'\<lparr>nextRef := Suc r,
                  overlay := Some r,
                  heap := (heap s')(r \<mapsto>
                    \<lparr>is_open = False, main_slides = map (slide_of (browser s')) imgs,
                     thumb_slides = map (thumb_of (browser s')) imgs, transitionend = 0\<rparr>),
                  body := body s' @ [r],
                  bodyOverflow := ''hidden''\<rparr>
      in case newSwiper (browser s1) ''.hb-gallery-thumbs'' None (body s1) of
           Inl e \<Rightarrow> s1\<lparr>uncaught := uncaught s1 @ [e]\<rparr>
         | Inr thumbs \<Rightarrow>
             (let s2 = s1\<lparr>thumbsSwiper := Some thumbs\<rparr> in
              case newSwiper (browser s2) ''.hb-gallery-swiper'' (Some thumbs) (body s2) of
                Inl e \<Rightarrow> s2\<lparr>uncaught := uncaught s2 @ [e]\<rparr>
              | Inr main \<Rightarrow> s2\<lparr>swiper := Some main, frames := Suc (frames s2)\<rparr>))"

text \<open>
  The click listener of a trigger (\<open>onImg\<close>: the click target is inside an image), the
  queued animation-frame callbacks, and a \<^verbatim>\<open>transitionend\<close> event on an overlay element
  in the document, which runs and removes the once-only listeners put on that element.
\<close>

definition triggerClick :: "GalleryConfig \<Rightarrow> bool \<Rightarrow> gallery \<Rightarrow> gallery" where
  "triggerClick config onImg s =
     (if trigger config \<notin> set (bound s) then s
      else if \<not> onImg then s
      else let imgs = (case caches s (trigger config) of None \<Rightarrow> [] | Some xs \<Rightarrow> xs) in
        if imgs = []
        then s\<lparr>gallery_console := gallery_console s @
               [''GalleryController: No images cached for \"'' @ trigger config @ ''\".'']\<rparr>
        else gallery_open imgs 0 s)"

definition animationFrame :: "gallery \<Rightarrow> gallery" where
  "animationFrame s =
     (if frames s = 0 then s
      else s\<lparr>frames := 0,
             heap := (case overlay s of
                        None \<Rightarrow> heap s
                      | Some r \<Rightarrow>
                          (case heap s r of
                             None \<Rightarrow> heap s
                           | Some el \<Rightarrow> (heap s)(r \<mapsto> el\<lparr>is_open := True\<rparr>)))\<rparr>)"

definition transitionEnd :: "nat \<Rightarrow> gallery \<Rightarrow> gallery" where
  "transitionEnd r s =
     (if r \<notin> set (body s) then s
      else case heap s r of
        None \<Rightarrow> s
      | Some el \<Rightarrow>
          runListeners (transitionend el)
            (s\<lparr>heap := (heap s)(r \<mapsto> el\<lparr>transitionend := 0\<rparr>)\<rparr>))"

text \<open>
  A mutation changes the document; then every observer whose container contained the
  target runs its callback, in registration order, on the changed document.
\<close>

fun notify :: "node \<Rightarrow> nat \<Rightarrow> (nat \<times> GalleryConfig) list \<Rightarrow> gallery \<Rightarrow> gallery" where
  "notify d target [] s = s"
| "notify d target ((container, config) # obs) s =
     notify d target obs (if inside container target d then refresh config s else s)"

definition mutate :: "mutation \<Rightarrow> gallery \<Rightarrow> gallery" where
  "mutate m s =
     (let d = doc s; s' = s\<lparr>doc := apply_mutation m d\<rparr> in
      case mutation_target m d of
        None \<Rightarrow> s'
      | Some target \<Rightarrow> notify d target (observers s) s')"

text \<open>
  \<^verbatim>\<open>destroy\<close>, the events the browser dispatches to the controller (a close request is
  the Escape key, the close button or a click on the backdrop) and runs after
  \<^verbatim>\<open>init\<close>.
\<close>

definition gallery_destroy :: "gallery \<Rightarrow> gallery" where
  "gallery_destroy s = gallery_close (s\<lparr>observers := []\<rparr>)"

datatype gallery_event =
  TriggerClick GalleryConfig bool
  | CloseRequest
  | AnimationFrame
  | TransitionEnd nat
  | Mutation mutation
  | GalleryDestroy

fun gallery_step :: "gallery \<Rightarrow> gallery_event \<Rightarrow> gallery" where
  "gallery_step s (TriggerClick config onImg) = triggerClick config onImg s"
| "gallery_step s CloseRequest = gallery_close s"
| "gallery_step s AnimationFrame = animationFrame s"
| "gallery_step s (TransitionEnd r) = transitionEnd r s"
| "gallery_step s (Mutation m) = mutate m s"
| "gallery_step s GalleryDestroy = gallery_destroy s"

definition gallery_run :: "browser \<Rightarrow> node \<Rightarrow> gallery_event list \<Rightarrow> gallery" where
  "gallery_run b d evs = foldl gallery_step (gallery_init (gallery0 b d)) evs"

text \<open>Element identities of a document and the number of images a query finds.\<close>

definition ids :: "node \<Rightarrow> nat list" where
  "ids d = map nid (elements d)"

definition count_img :: "string \<Rightarrow> node \<Rightarrow> nat" where
  "count_img attr d = length (querySelectorAll_img attr d)"

text \<open>Every registered observer refreshes one of the configured galleries.\<close>

definition configsKnown :: "gallery \<Rightarrow> bool" where
  "configsKnown s \<longleftrightarrow> snd ` set (observers s) \<subseteq> set GALLERY_CONFIGS"

section \<open>Example pages\<close>

text \<open>Concrete pages and inputs on which the properties below are evaluated.\<close>

definition example_strip :: strip where
  "example_strip = \<lparr>strip_id = 0, strip_offsetWidth = 320, strip_scrollWidth = 400\<rparr>"

definition mk_link :: "string \<Rightarrow> bool \<Rightarrow> int \<Rightarrow> link" where
  "mk_link t a left =
     \<lparr>devTarget = Some t, isActive = a, offsetLeft = left, offsetWidth = 80,
      tabHeader = Some 64, closestStrip = Some example_strip\<rparr>"

definition example_links :: "link list" where
  "example_links =
     [mk_link ''overview'' True 0, mk_link ''floor-plans'' False 80,
      mk_link ''amentities'' False 160, mk_link ''personalisation'' False 240,
      mk_link ''browse-homes'' False 320]"

definition example_page :: page where
  "example_page =
     \<lparr>innerWidth = 375, scrollY = 100,
      elementTop = map_of
        [(''overview-section'', 0), (''floor-plans-section'', 600),
         (''amentities-section'', 1200), (''personalization-section'', 1800),
         (''lots-section'', 2400)],
      objectPrototype = map_of [(''__proto__'', ''[object Object]'')]\<rparr>"

definition entries_fp_bh :: "entry list" where
  "entries_fp_bh = [entry_of ''floor-plans-section'' True, entry_of ''lots-section'' True]"

definition entries_bh_fp :: "entry list" where
  "entries_bh_fp = [entry_of ''lots-section'' True, entry_of ''floor-plans-section'' True]"

definition example_nav_fp :: nav where
  "example_nav_fp = run example_links example_page
     [Frame example_page, Batch [entry_of ''floor-plans-section'' True] example_page]"

definition page_without_lots :: page where
  "page_without_lots = example_page\<lparr>elementTop := (elementTop example_page)(''lots-section'' := None)\<rparr>"

definition img_node :: "nat \<Rightarrow> string \<Rightarrow> string \<Rightarrow> node" where
  "img_node i target url = Node i ''img'' [] [(''dev-target'', target), (''src'', url)] []"

definition example_doc :: node where
  "example_doc =
     Node 0 ''body'' [] []
       [Node 1 ''div'' [] [(''dev-target'', ''image-gallery'')] [Node 2 ''img'' [] [(''src'', ''cover.jpg'')] []],
        Node 3 ''div'' [] [(''dev-target'', ''community-gallery'')] [Node 4 ''img'' [] [(''src'', ''park.jpg'')] []],
        Node 5 ''div'' [''hidden-main-gallery-collection''] []
          [Node 6 ''div'' [''w-dyn-items''] []
             [img_node 7 ''hidden-main-gallery-images'' ''a1.jpg'',
              img_node 8 ''hidden-main-gallery-images'' ''a2.jpg'']],
        Node 9 ''div'' [''hidden-community-gallery-collection''] []
          [img_node 10 ''hidden-community-gallery-images'' ''b1.jpg'']]"

text \<open>
  A browser that resolves against one base address, with a Swiper that returns one
  slider for one matching element and an array of sliders otherwise.
\<close>

definition example_browser :: browser where
  "example_browser =
     \<lparr>resolveURL = (\<lambda>v. ''https://homebound.example/'' @ v),
      newSwiper = (\<lambda>selector thumbs matching.
        Inr (case matching of [r] \<Rightarrow> Instance r | _ \<Rightarrow> Instances matching))\<rparr>"

definition cfg_main :: GalleryConfig where "cfg_main = GALLERY_CONFIGS ! 0"

definition cfg_community :: GalleryConfig where "cfg_community = GALLERY_CONFIGS ! 1"

definition new_imgs :: "node list" where
  "new_imgs = [img_node 11 ''hidden-main-gallery-images'' ''a3.jpg'',
               img_node 12 ''hidden-main-gallery-images'' ''a4.jpg'',
               img_node 13 ''hidden-main-gallery-images'' ''a5.jpg'']"

definition outside_imgs :: "node list" where
  "outside_imgs = [img_node 14 ''hidden-main-gallery-images'' ''c1.jpg'',
                   img_node 15 ''hidden-main-gallery-images'' ''c2.jpg'',
                   img_node 16 ''hidden-main-gallery-images'' ''c3.jpg'']"

section \<open>Properties of the static tables\<close>

lemma getDevTargetBySectionId_cases:
  "getDevTargetBySectionId sid = Some t \<Longrightarrow> t \<in> set sectionOrder"
  by (auto simp: getDevTargetBySectionId_def find_Some_iff)

lemma getDevTargetBySectionId_Some:
  "getDevTargetBySectionId sid = Some t \<Longrightarrow> sectionMap t = Some sid"
  by (auto simp: getDevTargetBySectionId_def find_Some_iff)

lemma getDevTargetBySectionId_inj:
  "getDevTargetBySectionId a = Some t \<Longrightarrow> getDevTargetBySectionId b = Some t \<Longrightarrow> a = b"
  by (metis getDevTargetBySectionId_Some option.inject)

lemma sectionMap_nonempty_key: "sectionMap t = Some sid \<Longrightarrow> t \<noteq> []"
  by (auto simp: sectionMap_def)

text \<open>
  Claim C10. For every name in \<^verbatim>\<open>sectionOrder\<close> the table has an entry, the reverse
  lookup of that entry gives the name back, and the entries of the ordered names are
  pairwise distinct.
\<close>

theorem sectionMap_roundtrip:
  "name \<in> set sectionOrder \<Longrightarrow>
     (\<exists>sid. sectionMap name = Some sid \<and> getDevTargetBySectionId sid = Some name)
     \<and> distinct (map sectionMap sectionOrder)"
  by (auto simp: sectionOrder_def sectionMap_def getDevTargetBySectionId_def)

theorem sectionMap_roundtrip_witness:
  "''personalisation'' \<in> set sectionOrder
   \<and> sectionMap ''personalisation'' = Some ''personalization-section''
   \<and> getDevTargetBySectionId ''personalization-section'' = Some ''personalisation''"
  using sectionMap_roundtrip [of "''personalisation''"]
  by (simp add: sectionOrder_def sectionMap_def)

section \<open>Properties of the sticky navigation controller\<close>

subsection \<open>What each operation leaves unchanged\<close>

lemma visibleSections_setActiveLink [simp]:
  "visibleSections (setActiveLink t p s) = visibleSections s"
  by (simp add: setActiveLink_def)

lemma links_setActiveLink:
  "links (setActiveLink t p s) = map (\<lambda>l. l\<lparr>isActive := (devTarget l = Some t)\<rparr>) (links s)"
  by (simp add: setActiveLink_def)

lemma devTargets_setActiveLink:
  "map devTarget (links (setActiveLink t p s)) = map devTarget (links s)"
  by (simp add: links_setActiveLink comp_def)

lemma active_setActiveLink:
  "filter isActive (links (setActiveLink t p s)) =
     map (\<lambda>l. l\<lparr>isActive := True\<rparr>) (filter (\<lambda>l. devTarget l = Some t) (links s))"
  by (induction "links s" arbitrary: s) (simp_all add: links_setActiveLink filter_map comp_def)

lemma visibleSections_observerCallback:
  "visibleSections (observerCallback es p s) = foldl applyEntry (visibleSections s) es"
  by (simp add: observerCallback_def Let_def split: option.splits)

lemma visibleSections_clickHandler [simp]:
  "visibleSections (clickHandler i p s) = visibleSections s"
  by (simp add: clickHandler_def Let_def split: option.splits)

lemma visibleSections_initFrame [simp]:
  "visibleSections (initFrame p s) = visibleSections s"
  by (simp add: initFrame_def split: option.splits list.splits)

lemma observeSection_frame:
  "visibleSections (observeSection p s t) = visibleSections s"
  "links (observeSection p s t) = links s"
  "calls (observeSection p s t) = calls s"
  by (simp_all add: observeSection_def split: option.splits)

lemma setupScrollObserver_frame:
  "visibleSections (setupScrollObserver p s) = visibleSections s
   \<and> links (setupScrollObserver p s) = links s
   \<and> calls (setupScrollObserver p s) = calls s"
proof -
  have "visibleSections (foldl (observeSection p) s' ts) = visibleSections s'
        \<and> links (foldl (observeSection p) s' ts) = links s'
        \<and> calls (foldl (observeSection p) s' ts) = calls s'" for s' ts
    by (induction ts arbitrary: s') (simp_all add: observeSection_frame)
  then show ?thesis by (simp add: setupScrollObserver_def)
qed

lemma init_frame:
  "visibleSections (init found p s) = visibleSections s"
  "links (init found p s) = found"
  by (simp_all add: init_def setupScrollObserver_frame)

subsection \<open>The example page, evaluated\<close>

lemmas example_defs = example_strip_def mk_link_def example_links_def example_page_def

lemmas nav_defs = run_def init_def setupScrollObserver_def observeSection_def nav0_def
  clickHandler_def sectionMap_get_def setActiveLink_def scrollLinkIntoStrip_def
  targetScrollLeft_def maxScroll_def initFrame_def observerCallback_def applyEntry_def
  activeTarget_def getDevTargetBySectionId_def sectionMap_def sectionOrder_def destroy_def
  entry_of_def

lemma run_example_init:
  "run example_links example_page [] =
     \<lparr>links = example_links,
      observer = Some [''overview-section'', ''floor-plans-section'', ''amentities-section'',
                       ''personalization-section'', ''lots-section''],
      visibleSections = {}, frameQueued = True, calls = [], console = []\<rparr>"
  by (simp add: example_defs nav_defs)

lemma run_example_frame:
  "run example_links example_page [Frame example_page] =
     \<lparr>links = example_links,
      observer = Some [''overview-section'', ''floor-plans-section'', ''amentities-section'',
                       ''personalization-section'', ''lots-section''],
      visibleSections = {}, frameQueued = False,
      calls = [StripScrollTo 0 0], console = []\<rparr>"
  by (simp add: example_defs nav_defs)

lemma example_nav_fp_eq:
  "example_nav_fp =
     \<lparr>links = [mk_link ''overview'' False 0, mk_link ''floor-plans'' True 80,
               mk_link ''amentities'' False 160, mk_link ''personalisation'' False 240,
               mk_link ''browse-homes'' False 320],
      observer = Some [''overview-section'', ''floor-plans-section'', ''amentities-section'',
                       ''personalization-section'', ''lots-section''],
      visibleSections = {''floor-plans''}, frameQueued = False,
      calls = [StripScrollTo 0 0, StripScrollTo 0 0], console = []\<rparr>"
  by (simp add: example_nav_fp_def example_defs nav_defs)

subsection \<open>The active target chosen by an observer batch\<close>

lemma activeTarget_empty: "activeTarget {} = None"
  by (simp add: activeTarget_def find_None_iff)

lemma activeTarget_char:
  "(case activeTarget vis of
      None \<Rightarrow> \<forall>t\<in>set sectionOrder. t \<notin> vis
    | Some t \<Rightarrow> \<exists>i<length sectionOrder. sectionOrder ! i = t \<and> t \<in> vis
                 \<and> (\<forall>k<length sectionOrder. sectionOrder ! k \<in> vis \<longrightarrow> i \<le> k))"
proof (cases "activeTarget vis")
  case None
  then have "\<forall>t\<in>set sectionOrder. t \<notin> vis"
    by (auto simp: activeTarget_def find_None_iff)
  then show ?thesis unfolding None by simp
next
  case (Some t)
  then obtain i where i: "i < length sectionOrder" "sectionOrder ! i \<in> vis" "t = sectionOrder ! i"
      "\<forall>j<i. sectionOrder ! j \<notin> vis"
    unfolding activeTarget_def find_Some_iff by blast
  have "\<forall>k<length sectionOrder. sectionOrder ! k \<in> vis \<longrightarrow> i \<le> k"
    using i(4) by (meson not_le)
  with i have "\<exists>i<length sectionOrder. sectionOrder ! i = t \<and> t \<in> vis
                 \<and> (\<forall>k<length sectionOrder. sectionOrder ! k \<in> vis \<longrightarrow> i \<le> k)"
    by blast
  then show ?thesis unfolding Some by simp
qed

lemma conflictFree_snoc: "conflictFree (xs @ [x]) \<Longrightarrow> conflictFree xs"
  unfolding conflictFree_def by (metis Un_iff set_append)

lemma applyEntry_miss:
  "getDevTargetBySectionId (target_id x) \<noteq> Some t \<Longrightarrow> t \<in> applyEntry V x \<longleftrightarrow> t \<in> V"
  by (cases "getDevTargetBySectionId (target_id x)") (simp_all add: applyEntry_def)

lemma applyEntry_hit:
  "getDevTargetBySectionId (target_id x) = Some t \<Longrightarrow> t \<in> applyEntry V x \<longleftrightarrow> isIntersecting x"
  by (simp add: applyEntry_def)

lemma foldl_applyEntry_mem:
  "conflictFree es \<Longrightarrow>
   t \<in> foldl applyEntry vis es \<longleftrightarrow>
     (\<exists>e\<in>set es. getDevTargetBySectionId (target_id e) = Some t \<and> isIntersecting e)
     \<or> (t \<in> vis \<and> \<not> (\<exists>e\<in>set es. getDevTargetBySectionId (target_id e) = Some t))"
proof (induction es rule: rev_induct)
  case Nil
  then show ?case by simp
next
  case (snoc x xs)
  let ?V = "foldl applyEntry vis xs"
  let ?hit = "\<lambda>e. getDevTargetBySectionId (target_id e) = Some t"
  have IH: "t \<in> ?V \<longleftrightarrow> (\<exists>e\<in>set xs. ?hit e \<and> isIntersecting e)
              \<or> (t \<in> vis \<and> \<not> (\<exists>e\<in>set xs. ?hit e))"
    by (rule snoc.IH [OF conflictFree_snoc [OF snoc.prems]])
  have step: "foldl applyEntry vis (xs @ [x]) = applyEntry ?V x" by simp
  have sets: "set (xs @ [x]) = insert x (set xs)" by simp
  show ?case
  proof (cases "?hit x")
    case False
    have "t \<in> applyEntry ?V x \<longleftrightarrow> t \<in> ?V"
      by (rule applyEntry_miss [OF False])
    then show ?thesis unfolding step sets using IH False by blast
  next
    case True
    have same: "isIntersecting e = isIntersecting x" if "e \<in> set xs" "?hit e" for e
    proof -
      have "target_id e = target_id x" by (rule getDevTargetBySectionId_inj [OF that(2) True])
      moreover have "e \<in> set (xs @ [x])" "x \<in> set (xs @ [x])" using that(1) by simp_all
      ultimately show ?thesis using snoc.prems unfolding conflictFree_def by blast
    qed
    have mem: "t \<in> applyEntry ?V x \<longleftrightarrow> isIntersecting x"
      by (rule applyEntry_hit [OF True])
    show ?thesis unfolding step sets mem using True same by blast
  qed
qed

lemma foldl_applyEntry_order:
  assumes "set es' = set es" "conflictFree es"
  shows "foldl applyEntry vis es' = foldl applyEntry vis es"
proof (rule set_eqI)
  fix t
  have cf': "conflictFree es'" using assms(2) unfolding conflictFree_def assms(1) .
  show "t \<in> foldl applyEntry vis es' \<longleftrightarrow> t \<in> foldl applyEntry vis es"
    by (simp only: foldl_applyEntry_mem [OF cf'] foldl_applyEntry_mem [OF assms(2)] assms(1))
qed

lemma observerCallback_order:
  assumes "set es' = set es" "conflictFree es"
  shows "observerCallback es' p s = observerCallback es p s"
  unfolding observerCallback_def foldl_applyEntry_order [OF assms] ..

lemma example_batch:
  assumes "''overview'' \<notin> vis"
  shows "activeTarget (foldl applyEntry vis
          [entry_of ''floor-plans-section'' True, entry_of ''lots-section'' True]) = Some ''floor-plans''"
    and "activeTarget (foldl applyEntry vis
          [entry_of ''lots-section'' True, entry_of ''floor-plans-section'' True]) = Some ''floor-plans''"
  using assms
  by (simp_all add: activeTarget_def applyEntry_def entry_of_def getDevTargetBySectionId_def
        sectionMap_def sectionOrder_def)

lemma foldl_applyEntry_last:
  "t \<in> foldl applyEntry vis es \<longleftrightarrow>
     (if filter (\<lambda>e. getDevTargetBySectionId (target_id e) = Some t) es = [] then t \<in> vis
      else isIntersecting (last (filter (\<lambda>e. getDevTargetBySectionId (target_id e) = Some t) es)))"
proof (induction es rule: rev_induct)
  case Nil
  then show ?case by simp
next
  case (snoc x xs)
  show ?case
  proof (cases "getDevTargetBySectionId (target_id x) = Some t")
    case True
    then show ?thesis by (simp add: applyEntry_hit)
  next
    case False
    then show ?thesis using snoc.IH by (simp add: applyEntry_miss)
  qed
qed

text \<open>
  Claim C1, amended. The callback applies the entries of a batch in arrival order: a
  name is visible afterwards exactly when the last entry for its section reports it
  intersecting, or when no entry is about it and it was visible before. The chosen
  active target is then the member of the visible set with the lowest index in
  \<^verbatim>\<open>sectionOrder\<close>, and the links are toggled to it; no target is chosen exactly when no
  ordered name is visible. The outcome does not depend on the order of the entries of a
  batch that reports no section with two different states. A batch reporting floor-plans
  and browse-homes intersecting, in either order, resolves to floor-plans when overview
  is not visible.
\<close>

theorem observer_active_target_lowest_index:
  "(\<forall>t. t \<in> visibleSections (observerCallback es p s) \<longleftrightarrow>
      (if filter (\<lambda>e. getDevTargetBySectionId (target_id e) = Some t) es = []
       then t \<in> visibleSections s
       else isIntersecting
              (last (filter (\<lambda>e. getDevTargetBySectionId (target_id e) = Some t) es))))
   \<and> (case activeTarget (visibleSections (observerCallback es p s)) of
      None \<Rightarrow>
        (\<forall>t\<in>set sectionOrder. t \<notin> visibleSections (observerCallback es p s))
        \<and> links (observerCallback es p s) = links s
    | Some t \<Rightarrow>
        (\<exists>i<length sectionOrder. sectionOrder ! i = t
           \<and> t \<in> visibleSections (observerCallback es p s)
           \<and> (\<forall>k<length sectionOrder.
                 sectionOrder ! k \<in> visibleSections (observerCallback es p s) \<longrightarrow> i \<le> k))
        \<and> links (observerCallback es p s) =
              map (\<lambda>l. l\<lparr>isActive := (devTarget l = Some t)\<rparr>) (links s))
   \<and> (set es' = set es \<and> conflictFree es \<longrightarrow>
        observerCallback es' p s = observerCallback es p s)
   \<and> (''overview'' \<notin> visibleSections s \<longrightarrow>
        activeTarget (visibleSections (observerCallback
          [entry_of ''floor-plans-section'' True, entry_of ''lots-section'' True] p s))
          = Some ''floor-plans''
        \<and> activeTarget (visibleSections (observerCallback
          [entry_of ''lots-section'' True, entry_of ''floor-plans-section'' True] p s))
          = Some ''floor-plans'')"
proof -
  let ?s' = "observerCallback es p s"
  let ?vis = "visibleSections ?s'"
  have vis: "?vis = foldl applyEntry (visibleSections s) es"
    by (rule visibleSections_observerCallback)
  have lk: "links ?s' = (case activeTarget ?vis of None \<Rightarrow> links s
        | Some t \<Rightarrow> map (\<lambda>l. l\<lparr>isActive := (devTarget l = Some t)\<rparr>) (links s))"
    unfolding vis by (simp add: observerCallback_def Let_def links_setActiveLink split: option.splits)
  have a: "case activeTarget ?vis of
      None \<Rightarrow> (\<forall>t\<in>set sectionOrder. t \<notin> ?vis) \<and> links ?s' = links s
    | Some t \<Rightarrow>
        (\<exists>i<length sectionOrder. sectionOrder ! i = t \<and> t \<in> ?vis
           \<and> (\<forall>k<length sectionOrder. sectionOrder ! k \<in> ?vis \<longrightarrow> i \<le> k))
        \<and> links ?s' = map (\<lambda>l. l\<lparr>isActive := (devTarget l = Some t)\<rparr>) (links s)"
    using activeTarget_char [of ?vis] lk by (cases "activeTarget ?vis") simp_all
  have b: "set es' = set es \<and> conflictFree es \<longrightarrow>
        observerCallback es' p s = observerCallback es p s"
    using observerCallback_order by blast
  have c: "''overview'' \<notin> visibleSections s \<longrightarrow>
        activeTarget (visibleSections (observerCallback
          [entry_of ''floor-plans-section'' True, entry_of ''lots-section'' True] p s))
          = Some ''floor-plans''
        \<and> activeTarget (visibleSections (observerCallback
          [entry_of ''lots-section'' True, entry_of ''floor-plans-section'' True] p s))
          = Some ''floor-plans''"
    unfolding visibleSections_observerCallback using example_batch by blast
  have z: "\<forall>t. t \<in> ?vis \<longleftrightarrow>
      (if filter (\<lambda>e. getDevTargetBySectionId (target_id e) = Some t) es = []
       then t \<in> visibleSections s
       else isIntersecting
              (last (filter (\<lambda>e. getDevTargetBySectionId (target_id e) = Some t) es)))"
    unfolding vis by (rule allI) (rule foldl_applyEntry_last)
  from z a b c show ?thesis by (intro conjI)
qed

text \<open>The end-to-end example on the five-link page, after the first frame.\<close>

theorem observer_active_target_lowest_index_witness:
  "set entries_bh_fp = set entries_fp_bh \<and> conflictFree entries_fp_bh
   \<and> ''overview'' \<notin> visibleSections (run example_links example_page [Frame example_page])
   \<and> observerCallback entries_bh_fp example_page (run example_links example_page [Frame example_page])
       = observerCallback entries_fp_bh example_page (run example_links example_page [Frame example_page])
   \<and> activeTarget (visibleSections (observerCallback entries_fp_bh example_page
         (run example_links example_page [Frame example_page]))) = Some ''floor-plans''
   \<and> map isActive (links (observerCallback entries_fp_bh example_page
         (run example_links example_page [Frame example_page])))
       = [False, True, False, False, False]"
proof -
  let ?s = "run example_links example_page [Frame example_page]"
  have h1: "set entries_bh_fp = set entries_fp_bh"
    by (auto simp: entries_bh_fp_def entries_fp_bh_def)
  have h2: "conflictFree entries_fp_bh"
    by (simp add: conflictFree_def entries_fp_bh_def entry_of_def)
  have h3: "''overview'' \<notin> visibleSections ?s"
    by (simp add: run_example_frame)
  note T = observer_active_target_lowest_index [of entries_fp_bh example_page ?s entries_bh_fp]
  have c1: "observerCallback entries_bh_fp example_page ?s
       = observerCallback entries_fp_bh example_page ?s"
    using T h1 h2 by blast
  have c2: "activeTarget (visibleSections (observerCallback entries_fp_bh example_page ?s))
       = Some ''floor-plans''"
    using T h3 unfolding entries_fp_bh_def by blast
  have c3: "map isActive (links (observerCallback entries_fp_bh example_page ?s))
       = [False, True, False, False, False]"
  proof -
    have "links (observerCallback entries_fp_bh example_page ?s) =
        map (\<lambda>l. l\<lparr>isActive := (devTarget l = Some ''floor-plans'')\<rparr>) (links ?s)"
      using T unfolding c2 by simp
    then show ?thesis
      unfolding run_example_frame by (simp add: example_links_def mk_link_def)
  qed
  from h1 h2 h3 c1 c2 c3 show ?thesis by blast
qed

text \<open>
  With overview visible the same batch resolves to overview; and a batch that reports
  floor-plans once intersecting and once not ends differently in its two orders.
\<close>

theorem observer_batch_counterexample:
  "map isActive (links (run example_links example_page
      [Frame example_page, Batch [entry_of ''overview-section'' True] example_page,
       Batch entries_fp_bh example_page])) = [True, False, False, False, False]
   \<and> map isActive (links (run example_links example_page
      [Frame example_page,
       Batch [entry_of ''floor-plans-section'' True, entry_of ''floor-plans-section'' False]
         example_page])) = [True, False, False, False, False]
   \<and> map isActive (links (run example_links example_page
      [Frame example_page,
       Batch [entry_of ''floor-plans-section'' False, entry_of ''floor-plans-section'' True]
         example_page])) = [False, True, False, False, False]"
  by (simp add: example_defs nav_defs entries_fp_bh_def)

text \<open>
  Claim C3. If a batch leaves the visible set empty, the callback changes nothing but
  the visible set: no link's active flag is added or removed and no scroll is issued.
\<close>

theorem empty_visible_set_keeps_active_link:
  "visibleSections (observerCallback es p s) = {} \<Longrightarrow>
     observerCallback es p s = s\<lparr>visibleSections := {}\<rparr>"
proof -
  assume e: "visibleSections (observerCallback es p s) = {}"
  then have "foldl applyEntry (visibleSections s) es = {}"
    by (simp add: visibleSections_observerCallback)
  then show ?thesis
    by (simp add: observerCallback_def Let_def activeTarget_empty)
qed

text \<open>Floor-plans is active and alone visible; the batch reports that it left the band.\<close>

theorem empty_visible_set_keeps_active_link_witness:
  "visibleSections (observerCallback [entry_of ''floor-plans-section'' False] example_page
      example_nav_fp) = {}
   \<and> links (observerCallback [entry_of ''floor-plans-section'' False] example_page example_nav_fp)
       = links example_nav_fp
   \<and> map isActive (links (observerCallback [entry_of ''floor-plans-section'' False] example_page
        example_nav_fp)) = [False, True, False, False, False]"
proof -
  let ?es = "[entry_of ''floor-plans-section'' False]"
  have h: "visibleSections (observerCallback ?es example_page example_nav_fp) = {}"
    unfolding visibleSections_observerCallback example_nav_fp_eq
    by (simp add: applyEntry_def entry_of_def getDevTargetBySectionId_def sectionMap_def
          sectionOrder_def)
  have eq: "observerCallback ?es example_page example_nav_fp
      = example_nav_fp\<lparr>visibleSections := {}\<rparr>"
    using h by (rule empty_visible_set_keeps_active_link)
  have c1: "links (observerCallback ?es example_page example_nav_fp) = links example_nav_fp"
    unfolding eq by simp
  have c2: "map isActive (links (observerCallback ?es example_page example_nav_fp))
      = [False, True, False, False, False]"
    unfolding c1 unfolding example_nav_fp_eq by (simp add: mk_link_def)
  from h c1 c2 show ?thesis by blast
qed

subsection \<open>At most one active link\<close>

lemma filter_key_le1:
  "distinct (map f xs) \<Longrightarrow> length (filter (\<lambda>x. f x = v) xs) \<le> 1"
proof (induction xs)
  case Nil
  then show ?case by simp
next
  case (Cons x xs)
  show ?case
  proof (cases "f x = v")
    case True
    then have "\<forall>y\<in>set xs. f y \<noteq> v" using Cons.prems by (auto simp: image_iff)
    then have "filter (\<lambda>x. f x = v) xs = []" by (simp add: filter_empty_conv)
    then show ?thesis using True by simp
  next
    case False
    then show ?thesis using Cons by simp
  qed
qed

lemma navInv_setActiveLink:
  assumes "distinct (map devTarget (links s))"
  shows "navInv (setActiveLink t p s)"
  unfolding navInv_def devTargets_setActiveLink active_setActiveLink
  using assms filter_key_le1 [OF assms, of "Some t"] by simp

lemma navInv_clickHandler: "navInv s \<Longrightarrow> navInv (clickHandler i p s)"
proof -
  assume inv: "navInv s"
  have upd: "navInv (s\<lparr>console := c\<rparr>)" for c using inv by (simp add: navInv_def)
  have act: "navInv (setActiveLink t p (s\<lparr>calls := c\<rparr>))" for t c
    by (rule navInv_setActiveLink) (use inv in \<open>simp add: navInv_def\<close>)
  show ?thesis
    unfolding clickHandler_def Let_def
    using inv upd act by (simp split: option.splits)
qed

lemma navInv_observerCallback: "navInv s \<Longrightarrow> navInv (observerCallback es p s)"
proof -
  assume inv: "navInv s"
  have upd: "navInv (s\<lparr>visibleSections := v\<rparr>)" for v using inv by (simp add: navInv_def)
  have act: "navInv (setActiveLink t p (s\<lparr>visibleSections := v\<rparr>))" for t v
    by (rule navInv_setActiveLink) (use inv in \<open>simp add: navInv_def\<close>)
  show ?thesis
    unfolding observerCallback_def Let_def
    using upd act by (simp split: option.splits)
qed

lemma navInv_initFrame: "navInv s \<Longrightarrow> navInv (initFrame p s)"
proof (cases "find isActive (links s)")
  case (Some l)
  assume "navInv s"
  then show ?thesis using Some by (simp add: initFrame_def navInv_def)
next
  case None
  assume inv: "navInv s"
  from None have none: "filter isActive (links s) = []"
    by (simp add: find_None_iff filter_empty_conv)
  show ?thesis
  proof (cases "links s")
    case Nil
    then show ?thesis using inv None by (simp add: initFrame_def)
  next
    case (Cons l ls)
    then have "filter isActive ls = []" using none by (simp split: if_splits)
    then show ?thesis using inv None Cons by (simp add: initFrame_def navInv_def)
  qed
qed

lemma navInv_step: "navInv s \<Longrightarrow> navInv (step s e)"
proof (cases e)
  case (Frame p)
  assume inv: "navInv s"
  then have "navInv (s\<lparr>frameQueued := False\<rparr>)" by (simp add: navInv_def)
  then show ?thesis using inv Frame by (simp add: navInv_initFrame)
next
  case (Click i p)
  assume "navInv s"
  then show ?thesis using Click by (simp add: navInv_clickHandler)
next
  case (Batch es p)
  assume "navInv s"
  then show ?thesis using Batch by (simp add: navInv_observerCallback)
next
  case Destroy
  assume "navInv s"
  then show ?thesis using Destroy by (simp add: destroy_def navInv_def)
qed

lemma navInv_foldl: "navInv s \<Longrightarrow> navInv (foldl step s evs)"
  by (induction evs arbitrary: s) (simp_all add: navInv_step)

text \<open>
  Claim C4, amended. If the links found by \<^verbatim>\<open>init\<close> carry pairwise different
  \<^verbatim>\<open>dev-target\<close> values and at most one of them is marked active in the markup, then
  after initialisation and after every frame, click, observer batch and \<^verbatim>\<open>destroy\<close> at
  most one link is active.
\<close>

theorem at_most_one_active_link:
  assumes "distinct (map devTarget found)" and "length (filter isActive found) \<le> 1"
  shows "length (filter isActive (links (run found p evs))) \<le> 1"
proof -
  have "navInv (init found p nav0)"
    using assms by (simp add: navInv_def init_frame)
  then have "navInv (run found p evs)"
    unfolding run_def by (rule navInv_foldl)
  then show ?thesis by (simp add: navInv_def)
qed

theorem at_most_one_active_link_witness:
  "distinct (map devTarget example_links) \<and> length (filter isActive example_links) \<le> 1
   \<and> length (filter isActive (links (run example_links example_page
        [Frame example_page, Click 3 example_page,
         Batch [entry_of ''lots-section'' True] example_page, Destroy, Click 0 example_page])))
       \<le> 1"
proof -
  have h1: "distinct (map devTarget example_links)"
    by (simp add: example_links_def mk_link_def)
  have h2: "length (filter isActive example_links) \<le> 1"
    by (simp add: example_links_def mk_link_def)
  from h1 h2 at_most_one_active_link [OF h1 h2] show ?thesis by blast
qed

text \<open>
  Without these conditions two links are active: \<^verbatim>\<open>init\<close> clears no flag set in the
  markup, and \<^verbatim>\<open>setActiveLink\<close> marks every link that carries the name.
\<close>

theorem two_active_links_counterexample:
  "length (filter isActive (links (run
      [mk_link ''overview'' True 0, mk_link ''floor-plans'' True 80]
      example_page [Frame example_page]))) = 2
   \<and> length (filter isActive (links (run
      [mk_link ''overview'' False 0, mk_link ''overview'' False 80]
      example_page [Frame example_page, Click 0 example_page]))) = 2"
  by (simp add: example_defs nav_defs)

subsection \<open>Clicks\<close>

lemma clickHandler_resolved:
  assumes "i < length (links s)" and "devTarget (links s ! i) = Some target"
    and "sectionMap target = Some sid" and "elementTop p sid = Some rectTop"
  shows "clickHandler i p s =
     setActiveLink target p
       (s\<lparr>calls := calls s @
          [WindowScrollTo (rectTop + scrollY p
             - (case tabHeader (links s ! i) of None \<Rightarrow> 0 | Some h \<Rightarrow> real_of_int h))]\<rparr>)"
  using assms sectionMap_nonempty_key [OF assms(3)]
  by (simp add: clickHandler_def Let_def sectionMap_get_def)

lemma filter_singleton:
  "x \<in> set xs \<Longrightarrow> P x \<Longrightarrow> length (filter P xs) = 1 \<Longrightarrow> filter P xs = [x]"
proof -
  assume a: "x \<in> set xs" "P x" "length (filter P xs) = 1"
  then obtain y where y: "filter P xs = [y]"
    by (cases "filter P xs") auto
  have "x \<in> set (filter P xs)" using a by simp
  then show ?thesis unfolding y by simp
qed

text \<open>
  Claim C5, amended. A click on a link whose target name is in the table and whose
  section is in the document marks active exactly the links that carry that name (so
  exactly the clicked link when no other link carries it), within the handler and
  whatever the observer state is, and issues a window scroll to the section's top plus
  the scroll position minus the height of the link's \<^verbatim>\<open>.tab-header\<close> ancestor (0 without
  one), followed only by the strip scrolls of the marked links.
\<close>

theorem click_marks_active_and_scrolls:
  assumes "i < length (links s)" and "devTarget (links s ! i) = Some target"
    and "sectionMap target = Some sid" and "elementTop p sid = Some rectTop"
  shows "links (clickHandler i p s) =
           map (\<lambda>l. l\<lparr>isActive := (devTarget l = Some target)\<rparr>) (links s)
       \<and> isActive (links (clickHandler i p s) ! i)
       \<and> (length (filter (\<lambda>l. devTarget l = Some target) (links s)) = 1 \<longrightarrow>
            filter isActive (links (clickHandler i p s)) = [(links s ! i)\<lparr>isActive := True\<rparr>])
       \<and> calls (clickHandler i p s) =
            calls s @
            WindowScrollTo (rectTop + scrollY p
               - (case tabHeader (links s ! i) of None \<Rightarrow> 0 | Some h \<Rightarrow> real_of_int h))
            # concat (map (\<lambda>l. if devTarget l = Some target
                                 then scrollLinkIntoStrip p l else []) (links s))
       \<and> links (clickHandler i p (s\<lparr>visibleSections := vis, observer := ob\<rparr>))
            = links (clickHandler i p s)"
proof -
  let ?dest = "rectTop + scrollY p
               - (case tabHeader (links s ! i) of None \<Rightarrow> 0 | Some h \<Rightarrow> real_of_int h)"
  note r = clickHandler_resolved [OF assms]
  have r': "clickHandler i p (s\<lparr>visibleSections := vis, observer := ob\<rparr>) =
     setActiveLink target p
       (s\<lparr>visibleSections := vis, observer := ob, calls := calls s @ [WindowScrollTo ?dest]\<rparr>)"
    using clickHandler_resolved [of i "s\<lparr>visibleSections := vis, observer := ob\<rparr>" target sid p rectTop]
      assms by simp
  have 1: "links (clickHandler i p s) =
           map (\<lambda>l. l\<lparr>isActive := (devTarget l = Some target)\<rparr>) (links s)"
    unfolding r by (simp add: links_setActiveLink)
  have 2: "isActive (links (clickHandler i p s) ! i)"
    unfolding 1 using assms(1,2) by simp
  have 3: "filter isActive (links (clickHandler i p s)) = [(links s ! i)\<lparr>isActive := True\<rparr>]"
    if one: "length (filter (\<lambda>l. devTarget l = Some target) (links s)) = 1"
  proof -
    have "filter (\<lambda>l. devTarget l = Some target) (links s) = [links s ! i]"
      using assms(1,2) one by (intro filter_singleton) simp_all
    then show ?thesis
      unfolding r by (simp add: active_setActiveLink)
  qed
  have 4: "calls (clickHandler i p s) =
            calls s @ WindowScrollTo ?dest
            # concat (map (\<lambda>l. if devTarget l = Some target
                                 then scrollLinkIntoStrip p l else []) (links s))"
    unfolding r by (simp add: setActiveLink_def)
  have 5: "links (clickHandler i p (s\<lparr>visibleSections := vis, observer := ob\<rparr>))
            = links (clickHandler i p s)"
    unfolding 1 unfolding r' by (simp add: links_setActiveLink)
  from 1 2 3 4 5 show ?thesis by blast
qed

theorem click_marks_active_and_scrolls_witness:
  "1 < length (links (run example_links example_page []))
   \<and> devTarget (links (run example_links example_page []) ! 1) = Some ''floor-plans''
   \<and> sectionMap ''floor-plans'' = Some ''floor-plans-section''
   \<and> elementTop example_page ''floor-plans-section'' = Some 600
   \<and> length (filter (\<lambda>l. devTarget l = Some ''floor-plans'')
        (links (run example_links example_page []))) = 1
   \<and> map isActive (links (clickHandler 1 example_page (run example_links example_page [])))
        = [False, True, False, False, False]
   \<and> calls (clickHandler 1 example_page (run example_links example_page []))
        = [WindowScrollTo 636, StripScrollTo 0 0]"
proof -
  let ?s = "run example_links example_page []"
  have h1: "1 < length (links ?s)" unfolding run_example_init by (simp add: example_links_def)
  have h2: "devTarget (links ?s ! 1) = Some ''floor-plans''"
    unfolding run_example_init by (simp add: example_links_def mk_link_def)
  have h3: "sectionMap ''floor-plans'' = Some ''floor-plans-section''"
    by (simp add: sectionMap_def)
  have h4: "elementTop example_page ''floor-plans-section'' = Some 600"
    by (simp add: example_page_def)
  have h5: "length (filter (\<lambda>l. devTarget l = Some ''floor-plans'') (links ?s)) = 1"
    unfolding run_example_init by (simp add: example_links_def mk_link_def)
  note T = click_marks_active_and_scrolls [OF h1 h2 h3 h4]
  have "links (clickHandler 1 example_page ?s) =
      map (\<lambda>l. l\<lparr>isActive := (devTarget l = Some ''floor-plans'')\<rparr>) (links ?s)"
    using T by blast
  then have c1: "map isActive (links (clickHandler 1 example_page ?s))
        = [False, True, False, False, False]"
    unfolding run_example_init by (simp add: example_links_def mk_link_def)
  have "calls (clickHandler 1 example_page ?s) =
      calls ?s @ WindowScrollTo (600 + scrollY example_page
               - (case tabHeader (links ?s ! 1) of None \<Rightarrow> 0 | Some h \<Rightarrow> real_of_int h))
            # concat (map (\<lambda>l. if devTarget l = Some ''floor-plans''
                                 then scrollLinkIntoStrip example_page l else []) (links ?s))"
    using T by blast
  then have c2: "calls (clickHandler 1 example_page ?s) = [WindowScrollTo 636, StripScrollTo 0 0]"
    unfolding run_example_init
    by (simp add: example_defs scrollLinkIntoStrip_def targetScrollLeft_def maxScroll_def)
  from h1 h2 h3 h4 h5 c1 c2 show ?thesis by blast
qed

text \<open>Two links carrying the same name are both marked by a click on the first.\<close>

theorem click_duplicate_target_counterexample:
  "map isActive (links (run [mk_link ''overview'' False 0, mk_link ''overview'' False 80]
      example_page [Click 0 example_page])) = [True, True]"
  by (simp add: example_defs nav_defs)

text \<open>
  Claim C8, amended. A click on a link whose name resolves to nothing returns the state
  unchanged and logs nothing; a click whose name resolves to a section id that is not in
  the document changes nothing but the console, which gets one message. In both cases
  the links and the scroll calls are unchanged.
\<close>

theorem click_unresolved_changes_nothing:
  assumes "i < length (links s)" and "devTarget (links s ! i) = Some target"
  shows "(sectionMap_get p target = None \<longrightarrow> clickHandler i p s = s)
       \<and> (\<forall>sid. sectionMap_get p target = Some sid \<and> elementTop p sid = None \<longrightarrow>
            clickHandler i p s =
              s\<lparr>console := console s @
                 (if target = [] then []
                  else [''StickyNavController: Section #'' @ sid @ '' not found.''])\<rparr>)"
  using assms by (simp add: clickHandler_def Let_def)

theorem click_unresolved_changes_nothing_witness:
  "0 < length (links (nav0\<lparr>links := [mk_link ''gallery'' False 0]\<rparr>))
   \<and> devTarget (links (nav0\<lparr>links := [mk_link ''gallery'' False 0]\<rparr>) ! 0) = Some ''gallery''
   \<and> sectionMap_get example_page ''gallery'' = None
   \<and> clickHandler 0 example_page (nav0\<lparr>links := [mk_link ''gallery'' False 0]\<rparr>)
       = nav0\<lparr>links := [mk_link ''gallery'' False 0]\<rparr>
   \<and> 4 < length (links (nav0\<lparr>links := example_links\<rparr>))
   \<and> devTarget (links (nav0\<lparr>links := example_links\<rparr>) ! 4) = Some ''browse-homes''
   \<and> sectionMap_get page_without_lots ''browse-homes'' = Some ''lots-section''
   \<and> elementTop page_without_lots ''lots-section'' = None
   \<and> clickHandler 4 page_without_lots (nav0\<lparr>links := example_links\<rparr>)
       = nav0\<lparr>links := example_links,
              console := [''StickyNavController: Section #lots-section not found.'']\<rparr>"
proof -
  let ?a = "nav0\<lparr>links := [mk_link ''gallery'' False 0]\<rparr>"
  let ?b = "nav0\<lparr>links := example_links\<rparr>"
  have a1: "0 < length (links ?a)" by simp
  have a2: "devTarget (links ?a ! 0) = Some ''gallery''" by (simp add: mk_link_def)
  have a3: "sectionMap_get example_page ''gallery'' = None"
    by (simp add: sectionMap_get_def sectionMap_def example_page_def)
  have b1: "4 < length (links ?b)" by (simp add: example_links_def)
  have b2: "devTarget (links ?b ! 4) = Some ''browse-homes''"
    by (simp add: example_links_def mk_link_def)
  have b3: "sectionMap_get page_without_lots ''browse-homes'' = Some ''lots-section''"
    by (simp add: sectionMap_get_def sectionMap_def)
  have b4: "elementTop page_without_lots ''lots-section'' = None"
    by (simp add: page_without_lots_def)
  have ca: "clickHandler 0 example_page ?a = ?a"
    using click_unresolved_changes_nothing [OF a1 a2, of example_page] a3 by blast
  have "clickHandler 4 page_without_lots ?b =
      ?b\<lparr>console := console ?b @
        (if ''browse-homes'' = [] then []
         else [''StickyNavController: Section #'' @ ''lots-section'' @ '' not found.''])\<rparr>"
    using click_unresolved_changes_nothing [OF b1 b2, of page_without_lots] b3 b4 by blast
  then have cb: "clickHandler 4 page_without_lots ?b =
      nav0\<lparr>links := example_links,
           console := [''StickyNavController: Section #lots-section not found.'']\<rparr>"
    by (simp add: nav0_def)
  from a1 a2 a3 ca b1 b2 b3 b4 cb show ?thesis by blast
qed

text \<open>A click on a link with an unmapped name leaves the console empty.\<close>

theorem click_unmapped_no_log_counterexample:
  "console (run [mk_link ''gallery'' True 0] example_page [Click 0 example_page]) = []"
  by (simp add: example_defs nav_defs)

subsection \<open>Centring the mobile strip\<close>

text \<open>
  What the clamp of the source gives: above 767px no strip is scrolled; otherwise the
  offset passed never exceeds \<^verbatim>\<open>scrollWidth - offsetWidth\<close>, and it is at least 0 whenever
  that difference is not negative.
\<close>

lemma strip_scroll_clamped:
  "(innerWidth p > 767 \<longrightarrow> scrollLinkIntoStrip p l = [])
   \<and> (innerWidth p \<le> 767 \<and> closestStrip l = Some st \<longrightarrow>
        (\<exists>x. scrollLinkIntoStrip p l = [StripScrollTo (strip_id st) x]
          \<and> x = min (max 0 (targetScrollLeft l st)) (maxScroll st)
          \<and> x \<le> real_of_int (strip_scrollWidth st - strip_offsetWidth st)
          \<and> (strip_offsetWidth st \<le> strip_scrollWidth st \<longrightarrow> 0 \<le> x)))"
  by (simp add: scrollLinkIntoStrip_def maxScroll_def)

text \<open>
  Claim C6, evaluated where it fails. In the source the minimum is applied last: for a
  strip wider than its content (a border counts into \<^verbatim>\<open>offsetWidth\<close>, not into
  \<^verbatim>\<open>scrollWidth\<close>) the offset passed is negative, below the 0 of the range. The bundled
  build has no clamp: for the first link of an ordinary strip it passes the centring
  offset itself, which is negative.
\<close>

theorem strip_scroll_outside_range:
  "scrollLinkIntoStrip example_page
     ((mk_link ''overview'' True 0)
        \<lparr>closestStrip := Some \<lparr>strip_id = 0, strip_offsetWidth = 302, strip_scrollWidth = 300\<rparr>\<rparr>)
     = [StripScrollTo 0 (- 2)]
   \<and> scrollLinkIntoStrip_bundle example_page (mk_link ''overview'' True 0)
     = [StripScrollTo 0 (- 120)]"
  by (simp add: example_defs scrollLinkIntoStrip_def scrollLinkIntoStrip_bundle_def
        targetScrollLeft_def maxScroll_def)

subsection \<open>The visible set stays within the ordered names\<close>

lemma applyEntry_subset:
  "vis \<subseteq> set sectionOrder \<Longrightarrow> applyEntry vis e \<subseteq> set sectionOrder"
  by (auto simp: applyEntry_def split: option.splits if_splits dest: getDevTargetBySectionId_cases)

lemma foldl_applyEntry_subset:
  "vis \<subseteq> set sectionOrder \<Longrightarrow> foldl applyEntry vis es \<subseteq> set sectionOrder"
  by (induction es arbitrary: vis) (simp_all add: applyEntry_subset)

lemma step_visible_subset:
  "visibleSections s \<subseteq> set sectionOrder \<Longrightarrow> visibleSections (step s e) \<subseteq> set sectionOrder"
  by (cases e) (simp_all add: visibleSections_observerCallback foldl_applyEntry_subset destroy_def)

lemma foldl_step_visible_subset:
  "visibleSections s \<subseteq> set sectionOrder \<Longrightarrow>
   visibleSections (foldl step s evs) \<subseteq> set sectionOrder"
  by (induction evs arbitrary: s) (simp_all add: step_visible_subset)

text \<open>
  Claim C9. In every state reached from \<^verbatim>\<open>init\<close> by frames, clicks, observer batches
  and \<^verbatim>\<open>destroy\<close>, every name in \<^verbatim>\<open>visibleSections\<close> is a member of \<^verbatim>\<open>sectionOrder\<close>.
\<close>

theorem visibleSections_subset_sectionOrder:
  "visibleSections (run found p evs) \<subseteq> set sectionOrder"
  unfolding run_def
  by (rule foldl_step_visible_subset) (simp add: init_frame nav0_def)

theorem visibleSections_subset_sectionOrder_witness:
  "visibleSections (run example_links example_page
      [Frame example_page,
       Batch [entry_of ''lots-section'' True, entry_of ''gallery-section'' True,
              entry_of ''process-section'' True] example_page])
     \<subseteq> set sectionOrder
   \<and> visibleSections (run example_links example_page
      [Frame example_page,
       Batch [entry_of ''lots-section'' True, entry_of ''gallery-section'' True,
              entry_of ''process-section'' True] example_page]) = {''browse-homes''}"
proof -
  let ?evs = "[Frame example_page,
       Batch [entry_of ''lots-section'' True, entry_of ''gallery-section'' True,
              entry_of ''process-section'' True] example_page]"
  have "visibleSections (run example_links example_page ?evs) = {''browse-homes''}"
    by (simp add: example_defs nav_defs)
  with visibleSections_subset_sectionOrder [of example_links example_page ?evs]
  show ?thesis by blast
qed

section \<open>Properties of the gallery controller\<close>

subsection \<open>The example document and the state after init\<close>

lemmas doc_defs = example_doc_def img_node_def querySelectorAll_img_def matches_img_def getAttribute_def
  querySelector_class_def matches_class_def querySelectorAll_devTarget_def

lemma example_doc_main_images [simp]: "querySelectorAll_img ''hidden-main-gallery-images'' example_doc =
   [img_node 7 ''hidden-main-gallery-images'' ''a1.jpg'', img_node 8 ''hidden-main-gallery-images'' ''a2.jpg'']"
  by (simp add: doc_defs)

lemma example_doc_community_images [simp]: "querySelectorAll_img ''hidden-community-gallery-images'' example_doc =
   [img_node 10 ''hidden-community-gallery-images'' ''b1.jpg'']"
  by (simp add: doc_defs)

lemma example_doc_main_container [simp]: "map_option nid (querySelector_class ''.hidden-main-gallery-collection'' example_doc) = Some 5"
  by (simp add: doc_defs)

lemma example_doc_community_container [simp]: "map_option nid (querySelector_class ''.hidden-community-gallery-collection'' example_doc) = Some 9"
  by (simp add: doc_defs)

lemma example_doc_triggers [simp]: "querySelectorAll_devTarget ''image-gallery'' example_doc \<noteq> []"
  "querySelectorAll_devTarget ''community-gallery'' example_doc \<noteq> []"
  by (simp_all add: doc_defs)

lemma example_doc_containers_present [simp]: "querySelector_class ''.hidden-main-gallery-collection'' example_doc \<noteq> None"
   "querySelector_class ''.hidden-community-gallery-collection'' example_doc \<noteq> None"
  by (simp_all add: doc_defs)

lemma refresh_fields [simp]:
  "doc (refresh c s) = doc s" "observers (refresh c s) = observers s"
  "caches (refresh c s) = (caches s)(trigger c \<mapsto> querySelectorAll_img (imageAttr c) (doc s))"
  "bound (refresh c s) = bound s"
  by (simp_all add: refresh_def)

lemma observeImages_fields [simp]:
  "doc (observeImages c s) = doc s"
  "caches (observeImages c s) = (caches s)(trigger c \<mapsto> querySelectorAll_img (imageAttr c) (doc s))"
  "observers (observeImages c s) = observers s @
     (case map_option nid (querySelector_class (containerClass c) (doc s)) of None \<Rightarrow> [] | Some k \<Rightarrow> [(k, c)])"
  "bound (observeImages c s) = bound s"
  by (simp_all add: observeImages_def Let_def split: option.splits)

lemma bindTrigger_fields [simp]:
  "doc (bindTrigger c s) = doc s"
  "caches (bindTrigger c s) = caches s"
  "observers (bindTrigger c s) = observers s"
  "bound (bindTrigger c s) = bound s @ (if querySelectorAll_devTarget (trigger c) (doc s) = [] then [] else [trigger c])"
  by (simp_all add: bindTrigger_def)

lemma init_steps_keep_overlay_fields [simp]:
  "overlay (refresh c s) = overlay s" "swiper (refresh c s) = swiper s"
  "thumbsSwiper (refresh c s) = thumbsSwiper s" "heap (refresh c s) = heap s"
  "body (refresh c s) = body s" "bodyOverflow (refresh c s) = bodyOverflow s"
  "frames (refresh c s) = frames s" "nextRef (refresh c s) = nextRef s"
  "gallery_console (refresh c s) = gallery_console s"
  "overlay (bindTrigger c s) = overlay s" "swiper (bindTrigger c s) = swiper s"
  "thumbsSwiper (bindTrigger c s) = thumbsSwiper s" "heap (bindTrigger c s) = heap s"
  "body (bindTrigger c s) = body s" "bodyOverflow (bindTrigger c s) = bodyOverflow s"
  "frames (bindTrigger c s) = frames s" "nextRef (bindTrigger c s) = nextRef s"
  "gallery_console (bindTrigger c s) = gallery_console s"
  "overlay (observeImages c s) = overlay s" "swiper (observeImages c s) = swiper s"
  "thumbsSwiper (observeImages c s) = thumbsSwiper s" "heap (observeImages c s) = heap s"
  "body (observeImages c s) = body s" "bodyOverflow (observeImages c s) = bodyOverflow s"
  "frames (observeImages c s) = frames s" "nextRef (observeImages c s) = nextRef s"
  "uncaught (refresh c s) = uncaught s" "browser (refresh c s) = browser s"
  "uncaught (bindTrigger c s) = uncaught s" "browser (bindTrigger c s) = browser s"
  "uncaught (observeImages c s) = uncaught s" "browser (observeImages c s) = browser s"
  by (simp_all add: refresh_def bindTrigger_def observeImages_def Let_def split: option.splits)

lemma observeImages_console [simp]:
  "querySelector_class (containerClass c) (doc s) \<noteq> None \<Longrightarrow>
   gallery_console (observeImages c s) = gallery_console s"
  by (auto simp add: observeImages_def Let_def refresh_def split: option.splits)

lemmas op_defs = triggerClick_def gallery_open_def gallery_close_def animationFrame_def transitionEnd_def
  onTransitionEnd_def gallery_destroy_def cfg_main_def cfg_community_def

lemma gallery_init_unfold:
  "gallery_init s =
     bindTrigger (GALLERY_CONFIGS ! 1) (observeImages (GALLERY_CONFIGS ! 1)
       ((bindTrigger (GALLERY_CONFIGS ! 0) (observeImages (GALLERY_CONFIGS ! 0)
          (s\<lparr>caches := (caches s)(trigger (GALLERY_CONFIGS ! 0) \<mapsto> [])\<rparr>)))
        \<lparr>caches := (caches (bindTrigger (GALLERY_CONFIGS ! 0) (observeImages (GALLERY_CONFIGS ! 0)
          (s\<lparr>caches := (caches s)(trigger (GALLERY_CONFIGS ! 0) \<mapsto> [])\<rparr>))))
            (trigger (GALLERY_CONFIGS ! 1) \<mapsto> [])\<rparr>))"
  by (simp add: gallery_init_def GALLERY_CONFIGS_def)

lemma init_example:
  "gallery_init (gallery0 example_browser example_doc) =
     \<lparr>doc = example_doc,
      caches = [''image-gallery'' \<mapsto> querySelectorAll_img ''hidden-main-gallery-images'' example_doc,
                ''community-gallery'' \<mapsto> querySelectorAll_img ''hidden-community-gallery-images'' example_doc],
      observers = [(5, cfg_main), (9, cfg_community)],
      bound = [''image-gallery'', ''community-gallery''],
      overlay = None, swiper = None, thumbsSwiper = None, heap = Map.empty, body = [],
      bodyOverflow = [], frames = 0, nextRef = 0, gallery_console = [],
      uncaught = [], browser = example_browser\<rparr>"
  unfolding gallery_init_unfold
  by (rule gallery.equality)
     (simp_all add: GALLERY_CONFIGS_def gallery0_def cfg_main_def cfg_community_def del: example_doc_main_images example_doc_community_images)

lemma run_nil: "gallery_run b d [] = gallery_init (gallery0 b d)"
  by (simp add: gallery_run_def)

text \<open>Right after \<^verbatim>\<open>init\<close> the cache of each configured gallery agrees with the document.\<close>

lemma init_caches_agree:
  "config \<in> set GALLERY_CONFIGS \<Longrightarrow>
   caches (gallery_run b d []) (trigger config)
     = Some (querySelectorAll_img (imageAttr config) (doc (gallery_run b d [])))"
  unfolding run_nil gallery_init_unfold
  by (auto simp: GALLERY_CONFIGS_def gallery0_def)

subsection \<open>Images found after appending children\<close>

lemma ids_Node: "ids (Node i t c a ks) = i # concat (map ids ks)"
  by (simp add: ids_def [abs_def] map_concat comp_def)

lemma count_img_Node:
  "count_img attr (Node i t c a ks) =
     (if matches_img attr (Node i t c a ks) then 1 else 0) + sum_list (map (count_img attr) ks)"
  by (simp add: count_img_def [abs_def] querySelectorAll_img_def [abs_def] length_concat comp_def
        filter_concat)

lemma appendChildren_absent:
  "parent \<notin> set (ids d) \<Longrightarrow> appendChildren parent new d = d"
proof (induction d)
  case (Node i t c a ks)
  have "map (appendChildren parent new) ks = ks"
  proof (rule map_idI)
    fix k assume k: "k \<in> set ks"
    then have "parent \<notin> set (ids k)" using Node.prems by (auto simp: ids_Node)
    then show "appendChildren parent new k = k" using Node.IH k by simp
  qed
  then show ?case using Node.prems by (simp add: ids_Node)
qed

lemma count_appendChildren_list:
  assumes IH: "\<And>k. k \<in> set ks \<Longrightarrow> distinct (ids k) \<Longrightarrow> parent \<in> set (ids k) \<Longrightarrow>
            count_img attr (appendChildren parent new k) = count_img attr k + n"
    and "distinct (concat (map ids ks))" and "parent \<in> set (concat (map ids ks))"
  shows "sum_list (map (count_img attr) (map (appendChildren parent new) ks)) =
         sum_list (map (count_img attr) ks) + n"
  using assms
proof (induction ks)
  case Nil
  then show ?case by simp
next
  case (Cons k ks)
  have dk: "distinct (ids k)" and dks: "distinct (concat (map ids ks))"
    and disj: "set (ids k) \<inter> set (concat (map ids ks)) = {}"
    using Cons.prems(2) by auto
  show ?case
  proof (cases "parent \<in> set (ids k)")
    case True
    then have "parent \<notin> set (concat (map ids ks))" using disj by auto
    then have "\<forall>k'\<in>set ks. parent \<notin> set (ids k')" by auto
    then have "map (appendChildren parent new) ks = ks"
      by (intro map_idI) (simp add: appendChildren_absent)
    moreover have "count_img attr (appendChildren parent new k) = count_img attr k + n"
      using Cons.prems(1) [of k] dk True by simp
    ultimately show ?thesis by simp
  next
    case False
    then have in_rest: "parent \<in> set (concat (map ids ks))" using Cons.prems(3) by auto
    have "sum_list (map (count_img attr) (map (appendChildren parent new) ks)) =
          sum_list (map (count_img attr) ks) + n"
      by (rule Cons.IH) (use Cons.prems(1) dks in_rest in auto)
    moreover have "appendChildren parent new k = k"
      using False by (rule appendChildren_absent)
    ultimately show ?thesis by simp
  qed
qed

lemma count_appendChildren:
  "distinct (ids d) \<Longrightarrow> parent \<in> set (ids d) \<Longrightarrow>
   count_img attr (appendChildren parent new d) =
     count_img attr d + sum_list (map (count_img attr) new)"
proof (induction d)
  case (Node i t c a ks)
  show ?case
  proof (cases "i = parent")
    case True
    then show ?thesis
      by (simp add: count_img_Node matches_img_def getAttribute_def)
  next
    case False
    have d: "distinct (concat (map ids ks))" and p: "parent \<in> set (concat (map ids ks))"
      using Node.prems False by (auto simp: ids_Node)
    have "sum_list (map (count_img attr) (map (appendChildren parent new) ks)) =
          sum_list (map (count_img attr) ks) + sum_list (map (count_img attr) new)"
      by (rule count_appendChildren_list [OF _ d p]) (rule Node.IH)
    then show ?thesis using False
      by (simp add: count_img_Node matches_img_def getAttribute_def)
  qed
qed

lemma count_img_leaf:
  "matches_img attr n \<Longrightarrow> children n = [] \<Longrightarrow> count_img attr n = 1"
  by (cases n) (simp add: count_img_Node)

lemma mutation_target_append:
  "mutation_target (AppendChildren parent new) d = Some target \<Longrightarrow>
     parent = target \<and> target \<in> set (ids d)"
  by (auto simp: mutation_target_def ids_def find_Some_iff)

subsection \<open>Registered observers and their notification\<close>

lemma unique_trigger:
  "c \<in> set GALLERY_CONFIGS \<Longrightarrow> c' \<in> set GALLERY_CONFIGS \<Longrightarrow> trigger c' = trigger c \<Longrightarrow> c' = c"
  by (auto simp: GALLERY_CONFIGS_def)

lemma notify_frame [simp]:
  "doc (notify d t obs s) = doc s" "observers (notify d t obs s) = observers s"
  by (induction d t obs s rule: notify.induct) simp_all

lemma notify_keeps:
  assumes "caches s (trigger c) = Some (querySelectorAll_img (imageAttr c) (doc s))"
    and "\<forall>(k', c')\<in>set obs. trigger c' = trigger c \<longrightarrow> c' = c"
  shows "caches (notify d t obs s) (trigger c) = Some (querySelectorAll_img (imageAttr c) (doc s))"
  using assms
proof (induction d t obs s rule: notify.induct)
  case (1 d target s)
  then show ?case by simp
next
  case (2 d target container config obs s)
  let ?s = "if inside container target d then refresh config s else s"
  have doc: "doc ?s = doc s" by simp
  have "caches ?s (trigger c) = Some (querySelectorAll_img (imageAttr c) (doc ?s))"
    using 2(2,3) by auto
  moreover have "\<forall>(k', c')\<in>set obs. trigger c' = trigger c \<longrightarrow> c' = c"
    using 2(3) by auto
  ultimately have "caches (notify d target obs ?s) (trigger c)
      = Some (querySelectorAll_img (imageAttr c) (doc ?s))"
    by (rule 2(1))
  then show ?case unfolding doc by simp
qed

lemma notify_hits:
  assumes "(k, c) \<in> set obs" and "inside k t d"
    and "\<forall>(k', c')\<in>set obs. trigger c' = trigger c \<longrightarrow> c' = c"
  shows "caches (notify d t obs s) (trigger c) = Some (querySelectorAll_img (imageAttr c) (doc s))"
  using assms
proof (induction d t obs s rule: notify.induct)
  case (1 d target s)
  then show ?case by simp
next
  case (2 d target container config obs s)
  let ?s = "if inside container target d then refresh config s else s"
  have doc: "doc ?s = doc s" by simp
  have rest: "\<forall>(k', c')\<in>set obs. trigger c' = trigger c \<longrightarrow> c' = c"
    using 2(4) by auto
  show ?case
  proof (cases "(k, c) = (container, config)")
    case True
    then have "caches ?s (trigger c) = Some (querySelectorAll_img (imageAttr c) (doc ?s))"
      using 2(3) by simp
    then have "caches (notify d target obs ?s) (trigger c)
        = Some (querySelectorAll_img (imageAttr c) (doc ?s))"
      using rest by (rule notify_keeps)
    then show ?thesis unfolding doc by simp
  next
    case False
    then have "(k, c) \<in> set obs" using 2(2) by auto
    then have "caches (notify d target obs ?s) (trigger c)
        = Some (querySelectorAll_img (imageAttr c) (doc ?s))"
      using 2(3) rest by (rule 2(1))
    then show ?thesis unfolding doc by simp
  qed
qed

lemma observers_gallery_close [simp]: "observers (gallery_close s) = observers s"
  by (simp add: gallery_close_def split: option.splits)

lemma observers_gallery_open [simp]: "observers (gallery_open imgs i s) = observers s"
  by (simp add: gallery_open_def Let_def split: sum.splits)

lemma observers_onTransitionEnd [simp]: "observers (fst (onTransitionEnd s)) = observers s"
  by (simp add: onTransitionEnd_def Let_def split: option.splits swiper_result.splits)

lemma observers_runListeners [simp]: "observers (runListeners n s) = observers s"
proof (induction n arbitrary: s)
  case 0
  then show ?case by simp
next
  case (Suc n)
  obtain s' e where r: "onTransitionEnd s = (s', e)" by (cases "onTransitionEnd s")
  then have "observers s' = observers s"
    using observers_onTransitionEnd [of s] by simp
  then show ?case using r Suc.IH by (cases e) simp_all
qed

lemma observers_step:
  "observers (gallery_step s e) = observers s \<or> observers (gallery_step s e) = []"
proof (cases e)
  case (TriggerClick c b)
  then show ?thesis by (simp add: triggerClick_def Let_def)
next
  case CloseRequest
  then show ?thesis by simp
next
  case AnimationFrame
  then show ?thesis by (simp add: animationFrame_def)
next
  case (TransitionEnd r)
  then show ?thesis by (simp add: transitionEnd_def split: option.splits)
next
  case (Mutation m)
  then show ?thesis by (simp add: mutate_def Let_def split: option.splits)
next
  case GalleryDestroy
  then show ?thesis by (simp add: gallery_destroy_def)
qed

lemma configsKnown_step: "configsKnown s \<Longrightarrow> configsKnown (gallery_step s e)"
proof -
  assume k: "configsKnown s"
  from observers_step [of s e] show ?thesis
  proof
    assume "observers (gallery_step s e) = observers s"
    then show ?thesis using k by (simp add: configsKnown_def)
  next
    assume "observers (gallery_step s e) = []"
    then show ?thesis by (simp add: configsKnown_def)
  qed
qed

lemma configsKnown_foldl: "configsKnown s \<Longrightarrow> configsKnown (foldl gallery_step s evs)"
  by (induction evs arbitrary: s) (simp_all add: configsKnown_step)

lemma configsKnown_init: "configsKnown (gallery_init (gallery0 b d))"
  unfolding configsKnown_def gallery_init_unfold
  by (auto simp: gallery0_def GALLERY_CONFIGS_def split: option.splits)

lemma configsKnown_run: "configsKnown (gallery_run b d evs)"
  unfolding gallery_run_def by (rule configsKnown_foldl) (rule configsKnown_init)

subsection \<open>The cache after a mutation in a watched container\<close>

text \<open>
  Claim C7, amended. In a state reached from \<^verbatim>\<open>init\<close>, a child-list mutation whose target lies
  in the subtree of a watched container leaves the cache of that gallery equal to the
  document-ordered list of all images of the changed document that match the image
  attribute. If the cache agreed with the document before and three matching childless
  image elements are appended, the cache is longer by exactly three.
\<close>

theorem cache_rescanned_on_container_mutation:
  assumes "s = gallery_run b d evs"
    and "(container, config) \<in> set (observers s)"
    and "mutation_target m (doc s) = Some target"
    and "inside container target (doc s)"
  shows "doc (mutate m s) = apply_mutation m (doc s)
       \<and> caches (mutate m s) (trigger config)
           = Some (querySelectorAll_img (imageAttr config) (doc (mutate m s)))
       \<and> (\<forall>i1 i2 i3 old.
            m = AppendChildren target [i1, i2, i3]
            \<and> (\<forall>i\<in>set [i1, i2, i3]. matches_img (imageAttr config) i \<and> children i = [])
            \<and> distinct (ids (doc s))
            \<and> caches s (trigger config) = Some old
            \<and> old = querySelectorAll_img (imageAttr config) (doc s)
            \<longrightarrow> (\<exists>new. caches (mutate m s) (trigger config) = Some new
                       \<and> length new = length old + 3))"
proof -
  have known: "config \<in> set GALLERY_CONFIGS" "\<forall>(k', c')\<in>set (observers s). c' \<in> set GALLERY_CONFIGS"
    using configsKnown_run [of b d evs] assms(1,2) by (auto simp: configsKnown_def)
  then have uniq: "\<forall>(k', c')\<in>set (observers s). trigger c' = trigger config \<longrightarrow> c' = config"
    using unique_trigger by blast
  have m: "mutate m s = notify (doc s) target (observers s) (s\<lparr>doc := apply_mutation m (doc s)\<rparr>)"
    using assms(3) by (simp add: mutate_def Let_def)
  have 1: "doc (mutate m s) = apply_mutation m (doc s)"
    unfolding m by simp
  have 2: "caches (mutate m s) (trigger config)
           = Some (querySelectorAll_img (imageAttr config) (doc (mutate m s)))"
    unfolding 1 unfolding m
    using notify_hits [OF assms(2,4) uniq, of "s\<lparr>doc := apply_mutation m (doc s)\<rparr>"] by simp
  have 3: "\<exists>new. caches (mutate m s) (trigger config) = Some new \<and> length new = length old + 3"
    if a: "m = AppendChildren target [i1, i2, i3]"
      and b: "\<forall>i\<in>set [i1, i2, i3]. matches_img (imageAttr config) i \<and> children i = []"
      and c: "distinct (ids (doc s))"
      and e: "old = querySelectorAll_img (imageAttr config) (doc s)"
    for i1 i2 i3 old
  proof -
    have t: "target \<in> set (ids (doc s))"
      using assms(3) a mutation_target_append by blast
    have "count_img (imageAttr config) (appendChildren target [i1, i2, i3] (doc s)) =
          count_img (imageAttr config) (doc s)
            + sum_list (map (count_img (imageAttr config)) [i1, i2, i3])"
      using c t by (rule count_appendChildren)
    moreover have "sum_list (map (count_img (imageAttr config)) [i1, i2, i3]) = 3"
      using b by (simp add: count_img_leaf)
    moreover have "doc (mutate m s) = appendChildren target [i1, i2, i3] (doc s)"
      using 1 a by (simp add: apply_mutation_def)
    ultimately have "length (querySelectorAll_img (imageAttr config) (doc (mutate m s)))
        = length old + 3"
      unfolding e by (simp add: count_img_def)
    with 2 show ?thesis by blast
  qed
  from 1 2 3 show ?thesis by blast
qed

text \<open>Three images appended two levels below the watched container of the main gallery.\<close>

theorem cache_rescanned_on_container_mutation_witness:
  "(5, cfg_main) \<in> set (observers (gallery_run example_browser example_doc []))
   \<and> mutation_target (AppendChildren 6 new_imgs) (doc (gallery_run example_browser example_doc [])) = Some 6
   \<and> inside 5 6 (doc (gallery_run example_browser example_doc []))
   \<and> map (matches_img (imageAttr cfg_main)) new_imgs = [True, True, True]
   \<and> map children new_imgs = [[], [], []]
   \<and> distinct (ids (doc (gallery_run example_browser example_doc [])))
   \<and> map_option (map nid) (caches (gallery_run example_browser example_doc []) (trigger cfg_main))
        = Some [7, 8]
   \<and> map_option (map nid)
         (caches (mutate (AppendChildren 6 new_imgs) (gallery_run example_browser example_doc []))
            (trigger cfg_main)) = Some [7, 8, 11, 12, 13]"
proof -
  let ?s = "gallery_run example_browser example_doc []"
  let ?m = "AppendChildren 6 new_imgs"
  have s: "?s = gallery_init (gallery0 example_browser example_doc)" by (rule run_nil)
  have h1: "(5, cfg_main) \<in> set (observers ?s)"
    unfolding s init_example by simp
  have d: "doc ?s = example_doc" unfolding s init_example by simp
  have h2: "mutation_target ?m (doc ?s) = Some 6"
    unfolding d by (simp add: mutation_target_def example_doc_def img_node_def)
  have h3: "inside 5 6 (doc ?s)"
    unfolding d by (simp add: inside_def example_doc_def img_node_def)
  have h4: "map (matches_img (imageAttr cfg_main)) new_imgs = [True, True, True]"
    by (simp add: new_imgs_def img_node_def matches_img_def getAttribute_def cfg_main_def
          GALLERY_CONFIGS_def)
  have h4': "map children new_imgs = [[], [], []]"
    by (simp add: new_imgs_def img_node_def)
  have h5: "distinct (ids (doc ?s))"
    unfolding d by (simp add: ids_def example_doc_def img_node_def)
  have c0: "caches ?s (trigger cfg_main)
      = Some (querySelectorAll_img ''hidden-main-gallery-images'' example_doc)"
    unfolding s init_example by (simp add: cfg_main_def GALLERY_CONFIGS_def del: example_doc_main_images)
  then have h6: "map_option (map nid) (caches ?s (trigger cfg_main)) = Some [7, 8]"
    by (simp add: img_node_def)
  note T = cache_rescanned_on_container_mutation [OF refl h1 h2 h3]
  have "caches (mutate ?m ?s) (trigger cfg_main)
      = Some (querySelectorAll_img (imageAttr cfg_main) (doc (mutate ?m ?s)))"
    using T by blast
  moreover have "doc (mutate ?m ?s) = apply_mutation ?m (doc ?s)"
    using T by blast
  ultimately have "caches (mutate ?m ?s) (trigger cfg_main)
      = Some (querySelectorAll_img (imageAttr cfg_main) (apply_mutation ?m example_doc))"
    unfolding d by simp
  then have c1: "map_option (map nid) (caches (mutate ?m ?s) (trigger cfg_main))
      = Some [7, 8, 11, 12, 13]"
    by (simp add: apply_mutation_def new_imgs_def cfg_main_def GALLERY_CONFIGS_def doc_defs)
  from h1 h2 h3 h4 h4' h5 h6 c1 show ?thesis by blast
qed

lemma example_doc_facts:
  "mutation_target (AppendChildren 0 outside_imgs) example_doc = Some 0"
  "inside 5 0 example_doc = False" "inside 9 0 example_doc = False"
  by (simp_all add: mutation_target_def inside_def example_doc_def img_node_def)

lemma example_doc1_facts:
  "mutation_target (AppendChildren 6 new_imgs) (appendChildren 0 outside_imgs example_doc) = Some 6"
  "inside 5 6 (appendChildren 0 outside_imgs example_doc)"
  "inside 9 6 (appendChildren 0 outside_imgs example_doc) = False"
  by (simp_all add: mutation_target_def inside_def example_doc_def img_node_def outside_imgs_def)

lemma example_doc2_images:
  "map nid (querySelectorAll_img ''hidden-main-gallery-images''
     (appendChildren 6 new_imgs (appendChildren 0 outside_imgs example_doc)))
   = [7, 8, 11, 12, 13, 14, 15, 16]"
  by (simp add: doc_defs outside_imgs_def new_imgs_def)

text \<open>
  Images appended outside the watched container refresh nothing, so the cache falls
  behind the document; the next three images appended inside the container then
  lengthen it by six.
\<close>

theorem cache_behind_document_counterexample:
  "map_option (map nid) (caches (gallery_run example_browser example_doc
      [Mutation (AppendChildren 0 outside_imgs)]) (trigger cfg_main)) = Some [7, 8]
   \<and> map_option (map nid) (caches (gallery_run example_browser example_doc
      [Mutation (AppendChildren 0 outside_imgs), Mutation (AppendChildren 6 new_imgs)])
      (trigger cfg_main)) = Some [7, 8, 11, 12, 13, 14, 15, 16]"
proof -
  let ?s0 = "gallery_init (gallery0 example_browser example_doc)"
  let ?d1 = "appendChildren 0 outside_imgs example_doc"
  have t: "trigger cfg_main = ''image-gallery''" "imageAttr cfg_main = ''hidden-main-gallery-images''"
    by (simp_all add: cfg_main_def GALLERY_CONFIGS_def)
  have s1: "mutate (AppendChildren 0 outside_imgs) ?s0 = ?s0\<lparr>doc := ?d1\<rparr>"
    unfolding init_example
    by (simp add: mutate_def Let_def example_doc_facts apply_mutation_def)
  have c1: "caches (?s0\<lparr>doc := ?d1\<rparr>) ''image-gallery''
      = Some (querySelectorAll_img ''hidden-main-gallery-images'' example_doc)"
    unfolding init_example by (simp del: example_doc_main_images)
  have s2: "caches (mutate (AppendChildren 6 new_imgs) (?s0\<lparr>doc := ?d1\<rparr>)) ''image-gallery''
      = Some (querySelectorAll_img ''hidden-main-gallery-images''
          (appendChildren 6 new_imgs ?d1))"
    unfolding init_example
    by (simp add: mutate_def Let_def example_doc1_facts apply_mutation_def t cfg_community_def
          GALLERY_CONFIGS_def)
  have r1: "gallery_run example_browser example_doc [Mutation (AppendChildren 0 outside_imgs)]
      = ?s0\<lparr>doc := ?d1\<rparr>"
    by (simp only: gallery_run_def foldl.simps gallery_step.simps s1)
  have r2: "gallery_run example_browser example_doc
      [Mutation (AppendChildren 0 outside_imgs), Mutation (AppendChildren 6 new_imgs)]
      = mutate (AppendChildren 6 new_imgs) (?s0\<lparr>doc := ?d1\<rparr>)"
    by (simp only: gallery_run_def foldl.simps gallery_step.simps s1)
  show ?thesis
    unfolding r1 r2 t c1 s2 by (simp add: example_doc2_images img_node_def)
qed

subsection \<open>Opening a gallery while one is open\<close>

lemma gallery_close_fields [simp]:
  "body (gallery_close s) = body s" "overlay (gallery_close s) = overlay s"
  "nextRef (gallery_close s) = nextRef s" "caches (gallery_close s) = caches s"
  "bound (gallery_close s) = bound s" "browser (gallery_close s) = browser s"
  by (simp_all add: gallery_close_def split: option.splits)

text \<open>
  \<^verbatim>\<open>open\<close> detaches nothing: the overlays that were children of the body still are, the
  new one is added after them and becomes the current one, whatever the Swiper
  constructor does.
\<close>

lemma gallery_open_fields [simp]:
  "body (gallery_open imgs startIndex s) = body s @ [nextRef s]"
  "overlay (gallery_open imgs startIndex s) = Some (nextRef s)"
  "nextRef (gallery_open imgs startIndex s) = Suc (nextRef s)"
  "caches (gallery_open imgs startIndex s) = caches s"
  "bound (gallery_open imgs startIndex s) = bound s"
  by (simp_all add: gallery_open_def Let_def split: sum.splits)

lemma animationFrame_fields [simp]:
  "body (animationFrame s) = body s" "overlay (animationFrame s) = overlay s"
  "nextRef (animationFrame s) = nextRef s" "caches (animationFrame s) = caches s"
  "bound (animationFrame s) = bound s"
  by (simp_all add: animationFrame_def)

lemma triggerClick_opens:
  "trigger config \<in> set (bound s) \<Longrightarrow> caches s (trigger config) = Some imgs \<Longrightarrow> imgs \<noteq> [] \<Longrightarrow>
   triggerClick config True s = gallery_open imgs 0 s"
  by (simp add: triggerClick_def)

text \<open>
  Claim C2, evaluated where it fails. The community gallery is opened while the main
  gallery is open: \<^verbatim>\<open>close\<close> has removed nothing, so both overlay elements are children
  of the body afterwards, the first one still among them, and the controller refers to
  the second.
\<close>

theorem gallery_reopen_leaves_two_overlays:
  "body (gallery_run example_browser example_doc
     [TriggerClick cfg_main True, AnimationFrame, TriggerClick cfg_community True]) = [0, 1]
   \<and> overlay (gallery_run example_browser example_doc
     [TriggerClick cfg_main True, AnimationFrame, TriggerClick cfg_community True]) = Some 1"
proof -
  let ?s0 = "gallery_init (gallery0 example_browser example_doc)"
  let ?a = "querySelectorAll_img ''hidden-main-gallery-images'' example_doc"
  let ?b = "querySelectorAll_img ''hidden-community-gallery-images'' example_doc"
  have t: "trigger cfg_main = ''image-gallery''" "trigger cfg_community = ''community-gallery''"
    by (simp_all add: cfg_main_def cfg_community_def GALLERY_CONFIGS_def)
  have s0: "bound ?s0 = [''image-gallery'', ''community-gallery'']"
    "caches ?s0 ''image-gallery'' = Some ?a" "caches ?s0 ''community-gallery'' = Some ?b"
    "body ?s0 = []" "nextRef ?s0 = 0"
    unfolding init_example by (simp_all del: example_doc_main_images example_doc_community_images)
  have ne: "?a \<noteq> []" "?b \<noteq> []" by simp_all
  have 1: "triggerClick cfg_main True ?s0 = gallery_open ?a 0 ?s0"
    by (rule triggerClick_opens) (simp_all only: t s0 ne, simp_all)
  let ?s2 = "animationFrame (gallery_open ?a 0 ?s0)"
  have 2: "triggerClick cfg_community True ?s2 = gallery_open ?b 0 ?s2"
    by (rule triggerClick_opens) (simp_all only: t animationFrame_fields gallery_open_fields s0 ne, simp_all)
  have run: "gallery_run example_browser example_doc
     [TriggerClick cfg_main True, AnimationFrame, TriggerClick cfg_community True]
     = gallery_open ?b 0 ?s2"
    by (simp only: gallery_run_def foldl.simps gallery_step.simps 1 2)
  show ?thesis
    unfolding run by (simp only: gallery_open_fields animationFrame_fields s0, simp)
qed

end
